theory Spec2Isabelle
  imports Complex_Main
begin

section \<open>Data model\<close>

text \<open>
  The metrics engine is \<^verbatim>\<open>src/ContentAnalyzer/analyze.py\<close>. It works on a pandas
  DataFrame read from a CSV file. A row of that frame after \<^verbatim>\<open>load_data\<close> is an event:
  \<^item> \<open>date\<close>: the instant in nanoseconds since 1970-01-01T00:00:00 UTC, the integer
    pandas keeps in a \<^verbatim>\<open>datetime64[ns, UTC]\<close> column; \<open>None\<close> is \<^verbatim>\<open>NaT\<close>, which
    \<^verbatim>\<open>pd.to_datetime(..., errors='coerce')\<close> gives for a missing or unparseable date;
  \<^item> \<open>message\<close>: the text of the cell; \<open>None\<close> is a cell without text, which is
    \<^verbatim>\<open>NaN\<close> for an empty CSV field. \<^verbatim>\<open>pd.read_csv\<close> types a column as a whole: when
    no cell of the message column has text (every cell is empty, or a number, or a boolean)
    the column is numeric or boolean and no cell of it is a string, so every cell is
    \<open>None\<close> here; when some cell has text, the column holds strings and \<^verbatim>\<open>NaN\<close>.

  Characters are the code points below 256 (Latin-1), and case is folded as
  \<^verbatim>\<open>re.IGNORECASE\<close> folds them. Floating-point results are modelled by exact rationals,
  with one extra value for \<^verbatim>\<open>nan\<close>.
\<close>

record event =
  date :: "int option"
  message :: "string option"

text \<open>A row of \<^verbatim>\<open>module_commits\<close>: the event and the four label columns the code adds.\<close>

record row = event +
  is_deployment :: bool
  is_failure :: bool
  is_bug :: bool
  is_pr :: bool

text \<open>A frame or a series is the list of its rows, each with its index label.\<close>

type_synonym 'a frame = "(nat \<times> 'a) list"

datatype pyfloat = Finite rat | NaN

datatype error = AttributeError | OutOfBoundsDatetime | OverflowError | KeyError

text \<open>The dictionary \<^verbatim>\<open>calculate_dora_metrics\<close> returns.\<close>

record report =
  Module_Name :: string
  Total_Commits :: nat
  Total_Bugs :: nat
  Total_PRs :: nat
  Weekly_Deployment_Frequency :: pyfloat
  Change_Failure_Rate :: pyfloat
  Mean_Time_to_Recovery :: pyfloat
  Lead_Time_for_Changes :: pyfloat

text \<open>\<^verbatim>\<open>pd.read_csv\<close> labels the rows with a \<^verbatim>\<open>RangeIndex\<close>: 0, 1, 2, ... in file order.\<close>

definition data_frame :: "event list \<Rightarrow> event frame" where
  "data_frame evs = enumerate 0 evs"

section \<open>The pandas and \<^verbatim>\<open>re\<close> operations the engine calls\<close>

subsection \<open>Case-insensitive search\<close>

text \<open>
  The lower-case form of a character, as \<^verbatim>\<open>re.IGNORECASE\<close> compares characters. Below
  128 (the top bit \<open>digit7\<close> is clear) the letters A to Z have their lower-case letter.
  From 128 on, the capitals of Latin-1, which are the code points 192 to 222 other than the
  multiplication sign 215, have their lower-case letter 32 places further on. Every other
  character is its own.
\<close>

definition lower_char :: "char \<Rightarrow> char" where
  "lower_char c =
     (if digit7 c
      then (let n = (of_char c :: nat)
            in if 192 \<le> n \<and> n \<le> 222 \<and> n \<noteq> 215 then char_of (n + 32) else c)
      else (case map_of (zip ''ABCDEFGHIJKLMNOPQRSTUVWXYZ'' ''abcdefghijklmnopqrstuvwxyz'') c of
              Some l \<Rightarrow> l
            | None \<Rightarrow> c))"

text \<open>A literal pattern matches at the start of the text, under \<^verbatim>\<open>re.IGNORECASE\<close>.\<close>

fun match_here :: "string \<Rightarrow> string \<Rightarrow> bool" where
  "match_here [] s = True"
| "match_here (p # ps) [] = False"
| "match_here (p # ps) (c # cs) = (lower_char p = lower_char c \<and> match_here ps cs)"

text \<open>
  \<^verbatim>\<open>re.search\<close> of an alternation \<^verbatim>\<open>a|b|c\<close> of literals: some alternative matches at
  some position of the text.
\<close>

fun re_search :: "string list \<Rightarrow> string \<Rightarrow> bool" where
  "re_search alts [] = list_ex (\<lambda>p. match_here p []) alts"
| "re_search alts (c # cs) =
     (list_ex (\<lambda>p. match_here p (c # cs)) alts \<or> re_search alts cs)"

text \<open>\<^verbatim>\<open>Series.str.contains(pat, case=False, na=False)\<close> on one cell.\<close>

definition str_contains :: "string list \<Rightarrow> string option \<Rightarrow> bool" where
  "str_contains alts cell = (case cell of None \<Rightarrow> False | Some m \<Rightarrow> re_search alts m)"

text \<open>
  \<^verbatim>\<open>Series.str.extract(r'\[([^\]]+)\]')\<close> on one text: the group of the first match. At
  an opening bracket the class takes the longest run of characters other than the closing
  bracket; the run must be non-empty and a closing bracket must follow it.
\<close>

fun str_extract :: "string \<Rightarrow> string option" where
  "str_extract [] = None"
| "str_extract (c # cs) =
     (if c = CHR ''['' \<and> takeWhile (\<lambda>x. x \<noteq> CHR '']'') cs \<noteq> []
         \<and> dropWhile (\<lambda>x. x \<noteq> CHR '']'') cs \<noteq> []
      then Some (takeWhile (\<lambda>x. x \<noteq> CHR '']'') cs)
      else str_extract cs)"

text \<open>\<^verbatim>\<open>Series.unique()\<close>: the distinct values in order of first appearance.\<close>

definition unique :: "'a list \<Rightarrow> 'a list" where
  "unique xs = rev (remdups (rev xs))"

subsection \<open>Timestamps, periods and means\<close>

definition ns_per_day :: int where
  "ns_per_day = 86400000000000"

definition ns_per_hour :: rat where
  "ns_per_hour = 3600000000000"

text \<open>
  \<^verbatim>\<open>dt.to_period('W')\<close>: the week from Monday to Sunday that holds the date, numbered from
  the week of 1969-12-29 (1970-01-01, day 0, was a Thursday). \<^verbatim>\<open>NaT\<close> stays \<^verbatim>\<open>NaT\<close>.
\<close>

definition to_period_W :: "int option \<Rightarrow> int option" where
  "to_period_W d = map_option (\<lambda>t. (t div ns_per_day + 3) div 7) d"

text \<open>
  \<^verbatim>\<open>groupby(key).size()\<close>: one entry per key value, in key order, with the number of
  rows that have it; rows whose key is \<^verbatim>\<open>NaT\<close> are dropped.
\<close>

fun incr :: "int \<Rightarrow> (int \<times> nat) list \<Rightarrow> (int \<times> nat) list" where
  "incr k [] = [(k, 1)]"
| "incr k ((k', n) # rest) =
     (if k = k' then (k', Suc n) # rest
      else if k < k' then (k, 1) # (k', n) # rest
      else (k', n) # incr k rest)"

fun groupby_size :: "int option list \<Rightarrow> (int \<times> nat) list" where
  "groupby_size [] = []"
| "groupby_size (None # ks) = groupby_size ks"
| "groupby_size (Some k # ks) = incr k (groupby_size ks)"

text \<open>\<^verbatim>\<open>Series.mean()\<close>: \<^verbatim>\<open>nan\<close> entries are skipped; with nothing left it is \<^verbatim>\<open>nan\<close>.\<close>

fun dropna :: "pyfloat list \<Rightarrow> rat list" where
  "dropna [] = []"
| "dropna (Finite x # xs) = x # dropna xs"
| "dropna (NaN # xs) = dropna xs"

definition series_mean :: "pyfloat list \<Rightarrow> pyfloat" where
  "series_mean xs =
     (if dropna xs = [] then NaN
      else Finite (sum_list (dropna xs) / of_nat (length (dropna xs))))"

definition int64_min :: int where
  "int64_min = - (2 ^ 63)"

definition int64_max :: int where
  "int64_max = 2 ^ 63 - 1"

text \<open>
  \<^verbatim>\<open>Timestamp - Timestamp\<close> on scalars. With \<^verbatim>\<open>NaT\<close> on either side it is \<^verbatim>\<open>NaT\<close>.
  The difference of the two 64-bit values is taken with an overflow check, and pandas raises
  \<^verbatim>\<open>OutOfBoundsDatetime\<close> ("Result is too large for pandas.Timedelta") when it does not
  fit; the least 64-bit value is the \<^verbatim>\<open>NaT\<close> sentinel and is no Timedelta either.
\<close>

definition timestamp_sub :: "int option \<Rightarrow> int option \<Rightarrow> error + int option" where
  "timestamp_sub a b =
     (case (a, b) of
        (Some x, Some y) \<Rightarrow>
          (if x - y \<le> int64_min \<or> int64_max < x - y then Inl OutOfBoundsDatetime
           else Inr (Some (x - y)))
      | _ \<Rightarrow> Inr None)"

text \<open>\<^verbatim>\<open>.total_seconds() / 3600\<close>; \<^verbatim>\<open>NaT.total_seconds()\<close> is \<^verbatim>\<open>nan\<close>.\<close>

definition hours :: "int option \<Rightarrow> pyfloat" where
  "hours delta = (case delta of None \<Rightarrow> NaN | Some ns \<Rightarrow> Finite (of_int ns / ns_per_hour))"

text \<open>Running a fallible function over a list stops at the first error.\<close>

fun traverse :: "('a \<Rightarrow> error + 'b) \<Rightarrow> 'a list \<Rightarrow> error + 'b list" where
  "traverse f [] = Inr []"
| "traverse f (x # xs) =
     (case f x of
        Inl e \<Rightarrow> Inl e
      | Inr y \<Rightarrow> (case traverse f xs of Inl e \<Rightarrow> Inl e | Inr ys \<Rightarrow> Inr (y # ys)))"

text \<open>
  \<^verbatim>\<open>left - right\<close> on two datetime Series. pandas first aligns them: the result has the
  union of the two indexes, and each operand is \<^verbatim>\<open>NaT\<close> at a label it does not have. The
  element-wise difference is overflow-checked (\<^verbatim>\<open>OverflowError\<close>).
\<close>

definition reindex :: "(nat \<times> int option) list \<Rightarrow> nat \<Rightarrow> int option" where
  "reindex s i = (case map_of s i of None \<Rightarrow> None | Some v \<Rightarrow> v)"

definition index_union :: "(nat \<times> 'a) list \<Rightarrow> (nat \<times> 'b) list \<Rightarrow> nat list" where
  "index_union l r = sort (remdups (map fst l @ map fst r))"

definition datetime_sub :: "int option \<Rightarrow> int option \<Rightarrow> error + int option" where
  "datetime_sub a b =
     (case (a, b) of
        (Some x, Some y) \<Rightarrow>
          (if x - y \<le> int64_min \<or> int64_max < x - y then Inl OverflowError
           else Inr (Some (x - y)))
      | _ \<Rightarrow> Inr None)"

definition series_sub ::
  "(nat \<times> int option) list \<Rightarrow> (nat \<times> int option) list \<Rightarrow> error + (nat \<times> int option) list"
where
  "series_sub l r =
     traverse (\<lambda>i. map_sum id (Pair i) (datetime_sub (reindex l i) (reindex r i)))
       (index_union l r)"

section \<open>The engine\<close>

subsection \<open>The accessor \<^verbatim>\<open>df['message'].str\<close>\<close>

text \<open>
  Both functions of the engine start from \<^verbatim>\<open>df['message'].str\<close>. pandas raises
  \<^verbatim>\<open>AttributeError\<close> ("Can only use .str accessor with string values") unless the column
  holds strings. The message column of a frame that \<^verbatim>\<open>pd.read_csv\<close> returns holds strings
  when the frame has no row (the empty column has the object type) or when some cell has
  text.
\<close>

definition holds_text :: "event frame \<Rightarrow> bool" where
  "holds_text df = (df = [] \<or> list_ex (\<lambda>(i, e). message e \<noteq> None) df)"

subsection \<open>\<^verbatim>\<open>extract_components\<close>\<close>

definition extract_components :: "event frame \<Rightarrow> error + string list" where
  "extract_components df =
     (if holds_text df
      then Inr (unique (List.map_filter (\<lambda>(i, e). Option.bind (message e) str_extract) df))
      else Inl AttributeError)"

subsection \<open>\<^verbatim>\<open>calculate_dora_metrics\<close>: filter and labels\<close>

text \<open>
  The filter of the first statement. The accessor raises on a column without strings.
  Otherwise the pattern is \<^verbatim>\<open>\[\<close>, the escaped module name, \<^verbatim>\<open>\]\<close>: the literal text of
  the name between brackets, searched anywhere in the message, ignoring case, and the rows
  that have it are kept, with their labels.
\<close>

definition select_module :: "event frame \<Rightarrow> string \<Rightarrow> error + event frame" where
  "select_module df module_name =
     (if holds_text df
      then Inr (filter (\<lambda>(i, e). str_contains [''['' @ module_name @ '']''] (message e)) df)
      else Inl AttributeError)"

definition deployment_keywords :: "string list" where
  "deployment_keywords = [''deploy'', ''release'', ''bump'', ''update'', ''version'']"

definition failure_keywords :: "string list" where
  "failure_keywords = [''bug'', ''rollback'', ''hotfix'', ''revert'', ''patch'']"

definition bug_keywords :: "string list" where
  "bug_keywords = [''bug'', ''error'', ''issue'']"

definition pr_keywords :: "string list" where
  "pr_keywords = [''PR'', ''pull request'']"

definition classify :: "event \<Rightarrow> row" where
  "classify e =
     \<lparr>date = date e, message = message e,
      is_deployment = str_contains deployment_keywords (message e),
      is_failure = str_contains failure_keywords (message e),
      is_bug = str_contains bug_keywords (message e),
      is_pr = str_contains pr_keywords (message e)\<rparr>"

text \<open>
  \<^verbatim>\<open>module_commits\<close> once the label columns are set. The selected rows all have text in
  a column of strings, so the accessor does not raise on them. Dropping the time zone with
  \<^verbatim>\<open>tz_localize(None)\<close> keeps the UTC wall clock, so the integer is unchanged.
\<close>

definition module_commits :: "event frame \<Rightarrow> string \<Rightarrow> error + row frame" where
  "module_commits df module_name =
     map_sum id (map (\<lambda>(i, e). (i, classify e))) (select_module df module_name)"

definition deployment_count :: "row frame \<Rightarrow> nat" where
  "deployment_count mc = length (filter (\<lambda>(i, r). is_deployment r) mc)"

definition failure_count :: "row frame \<Rightarrow> nat" where
  "failure_count mc = length (filter (\<lambda>(i, r). is_failure r) mc)"

definition bug_count :: "row frame \<Rightarrow> nat" where
  "bug_count mc = length (filter (\<lambda>(i, r). is_bug r) mc)"

definition pr_count :: "row frame \<Rightarrow> nat" where
  "pr_count mc = length (filter (\<lambda>(i, r). is_pr r) mc)"

subsection \<open>Weekly deployment frequency and change failure rate\<close>

definition week_sizes :: "row frame \<Rightarrow> (int \<times> nat) list" where
  "week_sizes mc =
     groupby_size (map (\<lambda>(i, r). to_period_W (date r)) (filter (\<lambda>(i, r). is_deployment r) mc))"

definition weekly_deployment_freq :: "row frame \<Rightarrow> pyfloat" where
  "weekly_deployment_freq mc =
     (if deployment_count mc > 0
      then series_mean (map (\<lambda>(w, n). Finite (of_nat n)) (week_sizes mc))
      else Finite 0)"

definition change_failure_rate :: "row frame \<Rightarrow> pyfloat" where
  "change_failure_rate mc =
     (if deployment_count mc > 0
      then Finite (of_nat (failure_count mc) / of_nat (deployment_count mc) * 100)
      else Finite 0)"

subsection \<open>Mean time to recovery\<close>

definition failure_indices :: "row frame \<Rightarrow> nat list" where
  "failure_indices mc = map fst (filter (\<lambda>(i, r). is_failure r) mc)"

text \<open>\<^verbatim>\<open>module_commits.loc[idx, 'date']\<close>\<close>

definition loc_date :: "row frame \<Rightarrow> nat \<Rightarrow> error + int option" where
  "loc_date mc idx = (case map_of mc idx of None \<Rightarrow> Inl KeyError | Some r \<Rightarrow> Inr (date r))"

definition subsequent_recoveries :: "row frame \<Rightarrow> nat \<Rightarrow> row frame" where
  "subsequent_recoveries mc idx = filter (\<lambda>(i, r). idx < i \<and> is_deployment r) mc"

text \<open>
  The loop over \<^verbatim>\<open>failure_indices\<close>, with the list \<^verbatim>\<open>recovery_times\<close> passed along.
  \<^verbatim>\<open>time_to_recovery > 0\<close> is false for \<^verbatim>\<open>nan\<close>.
\<close>

fun recovery_loop :: "row frame \<Rightarrow> nat list \<Rightarrow> rat list \<Rightarrow> error + rat list" where
  "recovery_loop mc [] recovery_times = Inr recovery_times"
| "recovery_loop mc (idx # rest) recovery_times =
     (case loc_date mc idx of
        Inl e \<Rightarrow> Inl e
      | Inr failure_time \<Rightarrow>
         (case subsequent_recoveries mc idx of
            [] \<Rightarrow> recovery_loop mc rest recovery_times
          | (j, d) # _ \<Rightarrow>
             (case timestamp_sub (date d) failure_time of
                Inl e \<Rightarrow> Inl e
              | Inr delta \<Rightarrow>
                 (case hours delta of
                    NaN \<Rightarrow> recovery_loop mc rest recovery_times
                  | Finite time_to_recovery \<Rightarrow>
                     recovery_loop mc rest
                       (if time_to_recovery > 0 then recovery_times @ [time_to_recovery]
                        else recovery_times)))))"

definition recovery_times :: "row frame \<Rightarrow> error + rat list" where
  "recovery_times mc = recovery_loop mc (failure_indices mc) []"

definition mean_of_times :: "rat list \<Rightarrow> rat" where
  "mean_of_times ts = (if ts \<noteq> [] then sum_list ts / of_nat (length ts) else 0)"

definition mean_time_to_recovery :: "row frame \<Rightarrow> error + pyfloat" where
  "mean_time_to_recovery mc = map_sum id (\<lambda>ts. Finite (mean_of_times ts)) (recovery_times mc)"

subsection \<open>Lead time for changes\<close>

definition deployment_times :: "row frame \<Rightarrow> (nat \<times> int option) list" where
  "deployment_times mc = map (\<lambda>(i, r). (i, date r)) (filter (\<lambda>(i, r). is_deployment r) mc)"

definition dates :: "row frame \<Rightarrow> (nat \<times> int option) list" where
  "dates mc = map (\<lambda>(i, r). (i, date r)) mc"

definition lead_times :: "row frame \<Rightarrow> error + pyfloat list" where
  "lead_times mc =
     map_sum id (map (\<lambda>(i, delta). hours delta)) (series_sub (deployment_times mc) (dates mc))"

definition lead_time_for_changes :: "row frame \<Rightarrow> error + pyfloat" where
  "lead_time_for_changes mc =
     (if deployment_count mc > 0
      then map_sum id (\<lambda>lts. if lts \<noteq> [] then series_mean lts else Finite 0) (lead_times mc)
      else Inr (Finite 0))"

subsection \<open>The report, and \<^verbatim>\<open>main\<close>\<close>

definition calculate_dora_metrics :: "event frame \<Rightarrow> string \<Rightarrow> error + report" where
  "calculate_dora_metrics df module_name =
     (case module_commits df module_name of
        Inl e \<Rightarrow> Inl e
      | Inr mc \<Rightarrow>
         (case mean_time_to_recovery mc of
            Inl e \<Rightarrow> Inl e
          | Inr mttr \<Rightarrow>
             (case lead_time_for_changes mc of
                Inl e \<Rightarrow> Inl e
              | Inr lead \<Rightarrow>
                 Inr \<lparr>Module_Name = module_name,
                      Total_Commits = length mc,
                      Total_Bugs = bug_count mc,
                      Total_PRs = pr_count mc,
                      Weekly_Deployment_Frequency = weekly_deployment_freq mc,
                      Change_Failure_Rate = change_failure_rate mc,
                      Mean_Time_to_Recovery = mttr,
                      Lead_Time_for_Changes = lead\<rparr>)))"

definition main :: "event frame \<Rightarrow> error + report list" where
  "main df =
     (case extract_components df of
        Inl e \<Rightarrow> Inl e
      | Inr components \<Rightarrow> traverse (calculate_dora_metrics df) components)"

section \<open>Reference definitions\<close>

text \<open>
  The notions the statements below compare the engine with. A term occurs in a message as a
  case-insensitive substring when the folded message is some text, the folded term, some
  text.
\<close>

definition ci_substring :: "string \<Rightarrow> string \<Rightarrow> bool" where
  "ci_substring t m \<longleftrightarrow> (\<exists>pre suf. map lower_char m = pre @ map lower_char t @ suf)"

text \<open>
  What the engine works on when the accessor does not raise: the rows the filter keeps, the
  same rows with their labels, and the first tags of the messages.
\<close>

definition selected_rows :: "event frame \<Rightarrow> string \<Rightarrow> event frame" where
  "selected_rows df module_name =
     filter (\<lambda>(i, e). str_contains [''['' @ module_name @ '']''] (message e)) df"

definition labelled_rows :: "event frame \<Rightarrow> string \<Rightarrow> row frame" where
  "labelled_rows df module_name = map (\<lambda>(i, e). (i, classify e)) (selected_rows df module_name)"

definition first_tags :: "event frame \<Rightarrow> string list" where
  "first_tags df = unique (List.map_filter (\<lambda>(i, e). Option.bind (message e) str_extract) df)"

text \<open>The events of the log that the filter of \<^verbatim>\<open>calculate_dora_metrics\<close> keeps, in input order.\<close>

definition filtered_events :: "event list \<Rightarrow> string \<Rightarrow> event list" where
  "filtered_events evs module_name =
     filter (\<lambda>e. str_contains [''['' @ module_name @ '']''] (message e)) evs"

subsection \<open>Weeks\<close>

text \<open>The weeks that hold at least one deployment, and the deployments of one week.\<close>

definition active_weeks :: "row list \<Rightarrow> int list" where
  "active_weeks rows =
     sort (remdups (List.map_filter (\<lambda>r. to_period_W (date r)) (filter is_deployment rows)))"

definition week_count :: "row list \<Rightarrow> int \<Rightarrow> nat" where
  "week_count rows w =
     length (filter (\<lambda>r. is_deployment r \<and> to_period_W (date r) = Some w) rows)"

subsection \<open>Recovery samples by position\<close>

text \<open>
  The duration in hours from a failure to a deployment, kept when both have a timestamp and
  it is positive.
\<close>

definition positive_hours :: "int option \<Rightarrow> int option \<Rightarrow> rat list" where
  "positive_hours d f =
     (case (d, f) of
        (Some a, Some b) \<Rightarrow> (if a - b > 0 then [of_int (a - b) / ns_per_hour] else [])
      | _ \<Rightarrow> [])"

text \<open>
  The sample of the event at position \<open>i\<close> of a sequence: the first deployment among the
  events at the positions after \<open>i\<close> decides it, whether or not that deployment has a
  timestamp.
\<close>

definition recovery_sample :: "row list \<Rightarrow> nat \<Rightarrow> rat list" where
  "recovery_sample rows i =
     (case find is_deployment (drop (Suc i) rows) of
        None \<Rightarrow> []
      | Some d \<Rightarrow> positive_hours (date d) (date (rows ! i)))"

definition position_samples :: "row list \<Rightarrow> rat list" where
  "position_samples rows =
     concat (map (recovery_sample rows) (filter (\<lambda>i. is_failure (rows ! i)) [0..<length rows]))"

text \<open>The samples of the positions from \<open>k\<close> on.\<close>

definition suffix_samples :: "row list \<Rightarrow> nat \<Rightarrow> rat list" where
  "suffix_samples rows k =
     concat (map (recovery_sample rows) (filter (\<lambda>i. is_failure (rows ! i)) [k..<length rows]))"



subsection \<open>Lead time as a cross-join\<close>

text \<open>
  The mean, over every deployment timestamp paired with every event timestamp, of the
  duration between them in hours; 0 without deployments.
\<close>

definition cross_join_lead_time :: "row list \<Rightarrow> rat" where
  "cross_join_lead_time rows =
     (if filter is_deployment rows = [] then 0
      else mean_of_times
        (concat (map (\<lambda>d. map (\<lambda>t. of_int (d - t) / ns_per_hour) (List.map_filter date rows))
           (List.map_filter date (filter is_deployment rows)))))"

text \<open>
  What the aligned subtraction of the lead time leaves at a row: a deployment row is paired
  with itself, any other row with nothing.
\<close>

definition own_difference :: "row \<Rightarrow> int option" where
  "own_difference r = (if is_deployment r then map_option (\<lambda>t. 0) (date r) else None)"

subsection \<open>Labelled events and logs\<close>

definition classified :: "event list \<Rightarrow> string \<Rightarrow> row list" where
  "classified evs module_name = map classify (filtered_events evs module_name)"

definition label_counts :: "row list \<Rightarrow> nat \<times> nat \<times> nat \<times> nat \<times> nat" where
  "label_counts rows =
     (length rows, length (filter is_bug rows), length (filter is_pr rows),
      length (filter is_deployment rows), length (filter is_failure rows))"

definition ev :: "int option \<Rightarrow> string \<Rightarrow> event" where
  "ev d m = \<lparr>date = d, message = Some m\<rparr>"

definition hour :: int where
  "hour = 3600000000000"

text \<open>The example of the specification: a bug at time 0 and a release five hours later.\<close>

definition bug_then_release :: "event list" where
  "bug_then_release = [ev (Some 0) ''[X] bug in X'', ev (Some (5 * hour)) ''[X] release v2'']"


text \<open>A change and, five hours later, its release.\<close>

definition change_then_release :: "event list" where
  "change_then_release = [ev (Some 0) ''[X] fix typo'', ev (Some (5 * hour)) ''[X] release v2'']"

text \<open>One release whose date could not be parsed.\<close>

definition undated_release :: "event list" where
  "undated_release = [ev None ''[X] release v2'']"

text \<open>A bug, a release without a date, and a dated release five hours after the bug.\<close>

definition undated_release_between :: "event list" where
  "undated_release_between =
     [ev (Some 0) ''[X] bug'', ev None ''[X] release'', ev (Some (5 * hour)) ''[X] release'']"

text \<open>
  A bug on 1688-01-01 and a release on 2101-01-01 (UTC midnight): both are valid pandas
  timestamps, 413 years apart.
\<close>

definition far_apart :: "event list" where
  "far_apart =
     [ev (Some (- 8899027200000000000)) ''[X] bug'', ev (Some 4133980800000000000) ''[X] release'']"

text \<open>
  Releases on Monday 2024-01-01, Wednesday 2024-01-03 and Monday 2024-01-08: two in one
  week, one in the next.
\<close>

definition three_releases :: "event list" where
  "three_releases =
     [ev (Some 1704067200000000000) ''[X] release 1'',
      ev (Some 1704240000000000000) ''[X] release 2'',
      ev (Some 1704672000000000000) ''[X] release 3'']"

text \<open>Two bugs and one release.\<close>

definition two_bugs_one_release :: "event list" where
  "two_bugs_one_release =
     [ev (Some 0) ''[X] bug 1'', ev (Some hour) ''[X] bug 2'', ev (Some (2 * hour)) ''[X] release'']"

text \<open>A message with two tags, and a message whose first tag is the second of them.\<close>

definition two_tags :: "event list" where
  "two_tags = [ev (Some 0) ''[A] [B] release'', ev (Some hour) ''[B] fix'']"

text \<open>One event whose message cell is empty: the message column has no text.\<close>

definition no_text :: "event list" where
  "no_text = [\<lparr>date = Some 0, message = None\<rparr>]"

text \<open>
  A message tagged with the small letter e with acute accent (code point 233); the capital
  letter is code point 201.
\<close>

definition accented_tag :: "event list" where
  "accented_tag = [ev (Some 0) [CHR ''['', CHR 0xE9, CHR '']'', CHR '' '', CHR ''x'']]"

text \<open>Two tags that differ in letter case only.\<close>

definition case_variants :: "event list" where
  "case_variants = [ev (Some 0) ''[Auth] fix bug'', ev (Some hour) ''[auth] release'']"

subsection \<open>Timestamps\<close>

definition with_dates :: "event list \<Rightarrow> event list" where
  "with_dates evs = filter (\<lambda>e. date e \<noteq> None) evs"

definition without_dates :: "event list \<Rightarrow> event list" where
  "without_dates evs = map (\<lambda>e. e\<lparr>date := None\<rparr>) evs"

text \<open>No two timestamps of the events are further apart than a 64-bit Timedelta can hold.\<close>

definition within_int64 :: "event list \<Rightarrow> bool" where
  "within_int64 evs =
     list_all (\<lambda>a. list_all (\<lambda>b. a - b \<le> int64_max) (List.map_filter date evs))
       (List.map_filter date evs)"

text \<open>The report with every number 0.\<close>

definition zero_report :: "string \<Rightarrow> report" where
  "zero_report name =
     \<lparr>Module_Name = name, Total_Commits = 0, Total_Bugs = 0, Total_PRs = 0,
      Weekly_Deployment_Frequency = Finite 0, Change_Failure_Rate = Finite 0,
      Mean_Time_to_Recovery = Finite 0, Lead_Time_for_Changes = Finite 0\<rparr>"

definition is_finite :: "pyfloat \<Rightarrow> bool" where
  "is_finite x = (case x of Finite _ \<Rightarrow> True | NaN \<Rightarrow> False)"

section \<open>Case-insensitive search is substring search\<close>

lemma match_here_iff: "match_here p s \<longleftrightarrow> (\<exists>suf. map lower_char s = map lower_char p @ suf)"
  by (induction p s rule: match_here.induct) auto

lemma ci_substring_Cons:
  "ci_substring t (c # cs) \<longleftrightarrow> match_here t (c # cs) \<or> ci_substring t cs"
proof
  assume "ci_substring t (c # cs)"
  then obtain pre suf where eq: "map lower_char (c # cs) = pre @ map lower_char t @ suf"
    unfolding ci_substring_def by blast
  show "match_here t (c # cs) \<or> ci_substring t cs"
  proof (cases pre)
    case Nil
    with eq show ?thesis by (auto simp: match_here_iff)
  next
    case (Cons x pre')
    with eq have "map lower_char cs = pre' @ map lower_char t @ suf" by simp
    then show ?thesis unfolding ci_substring_def by blast
  qed
next
  assume "match_here t (c # cs) \<or> ci_substring t cs"
  then show "ci_substring t (c # cs)"
  proof
    assume "match_here t (c # cs)"
    then obtain suf where "map lower_char (c # cs) = map lower_char t @ suf"
      by (auto simp: match_here_iff)
    then have "map lower_char (c # cs) = [] @ map lower_char t @ suf" by simp
    then show ?thesis unfolding ci_substring_def by blast
  next
    assume "ci_substring t cs"
    then obtain pre suf where "map lower_char cs = pre @ map lower_char t @ suf"
      unfolding ci_substring_def by blast
    then have "map lower_char (c # cs) = (lower_char c # pre) @ map lower_char t @ suf" by simp
    then show ?thesis unfolding ci_substring_def by blast
  qed
qed

lemma ci_substring_Nil: "ci_substring t [] \<longleftrightarrow> match_here t []"
  by (auto simp: ci_substring_def match_here_iff)

lemma re_search_iff: "re_search alts m \<longleftrightarrow> (\<exists>t. t \<in> set alts \<and> ci_substring t m)"
  by (induction m) (auto simp: list_ex_iff ci_substring_Cons ci_substring_Nil)

lemma str_contains_iff:
  "str_contains alts cell \<longleftrightarrow> (\<exists>m t. cell = Some m \<and> t \<in> set alts \<and> ci_substring t m)"
  by (cases cell) (auto simp: str_contains_def re_search_iff)

text \<open>
  Claim C7. Each of the four labels of a message is true exactly when some term of the
  category's vocabulary occurs in the message as a case-insensitive substring, anywhere in
  the text; a message with no such term, or no text, has the label false. The term "bug" is
  in two vocabularies, so a message with it is both a failure and a bug.
\<close>

theorem C7_classifier_labels:
  "(is_deployment (classify e) \<longleftrightarrow>
      (\<exists>m t. message e = Some m
         \<and> t \<in> set [''deploy'', ''release'', ''bump'', ''update'', ''version'']
         \<and> ci_substring t m))
   \<and> (is_failure (classify e) \<longleftrightarrow>
      (\<exists>m t. message e = Some m
         \<and> t \<in> set [''bug'', ''rollback'', ''hotfix'', ''revert'', ''patch'']
         \<and> ci_substring t m))
   \<and> (is_bug (classify e) \<longleftrightarrow>
      (\<exists>m t. message e = Some m \<and> t \<in> set [''bug'', ''error'', ''issue''] \<and> ci_substring t m))
   \<and> (is_pr (classify e) \<longleftrightarrow>
      (\<exists>m t. message e = Some m \<and> t \<in> set [''PR'', ''pull request''] \<and> ci_substring t m))
   \<and> (message e = Some m \<and> ci_substring ''bug'' m \<longrightarrow>
        is_failure (classify e) \<and> is_bug (classify e))"
proof -
  have sel: "is_deployment (classify e) = str_contains deployment_keywords (message e)"
    "is_failure (classify e) = str_contains failure_keywords (message e)"
    "is_bug (classify e) = str_contains bug_keywords (message e)"
    "is_pr (classify e) = str_contains pr_keywords (message e)"
    by (simp_all add: classify_def)
  have b1: "''bug'' \<in> set [''bug'', ''rollback'', ''hotfix'', ''revert'', ''patch'']"
    by (rule list.set_intros(1))
  have b2: "''bug'' \<in> set [''bug'', ''error'', ''issue'']"
    by (rule list.set_intros(1))
  show ?thesis
    unfolding sel str_contains_iff deployment_keywords_def failure_keywords_def
      bug_keywords_def pr_keywords_def
    using b1 b2 by blast
qed

theorem C7_classifier_labels_witness:
  "ci_substring ''bug'' ''[X] Debugging''
   \<and> is_failure (classify \<lparr>date = None, message = Some ''[X] Debugging''\<rparr>)
   \<and> is_bug (classify \<lparr>date = None, message = Some ''[X] Debugging''\<rparr>)
   \<and> \<not> is_deployment (classify \<lparr>date = None, message = Some ''[X] Debugging''\<rparr>)"
proof -
  have "map lower_char ''[X] Debugging'' = ''[x] de'' @ map lower_char ''bug'' @ ''ging''"
    by code_simp
  then have sub: "ci_substring ''bug'' ''[X] Debugging''"
    unfolding ci_substring_def by blast
  have nd: "\<not> is_deployment (classify \<lparr>date = None, message = Some ''[X] Debugging''\<rparr>)"
    by code_simp
  have "message \<lparr>date = None, message = Some ''[X] Debugging''\<rparr> = Some ''[X] Debugging''
        \<and> ci_substring ''bug'' ''[X] Debugging'' \<longrightarrow>
      is_failure (classify \<lparr>date = None, message = Some ''[X] Debugging''\<rparr>)
        \<and> is_bug (classify \<lparr>date = None, message = Some ''[X] Debugging''\<rparr>)"
    using C7_classifier_labels
      [of "\<lparr>date = None, message = Some ''[X] Debugging''\<rparr>" "''[X] Debugging''"]
    by blast
  with sub nd show ?thesis by simp
qed

lemma str_extract_sub:
  "str_extract m = Some c \<Longrightarrow> \<exists>pre suf. m = pre @ ''['' @ c @ '']'' @ suf"
proof (induction m)
  case Nil
  then show ?case by simp
next
  case (Cons x xs)
  let ?run = "takeWhile (\<lambda>x. x \<noteq> CHR '']'') xs"
  let ?rest = "dropWhile (\<lambda>x. x \<noteq> CHR '']'') xs"
  show ?case
  proof (cases "x = CHR ''['' \<and> ?run \<noteq> [] \<and> ?rest \<noteq> []")
    case True
    with Cons.prems have c: "c = ?run" by simp
    from True have "hd ?rest = CHR '']''"
      using hd_dropWhile [of "\<lambda>x. x \<noteq> CHR '']''" xs] by auto
    with True obtain suf where "?rest = CHR '']'' # suf"
      by (cases ?rest) auto
    then have "xs = ?run @ '']'' @ suf"
      using takeWhile_dropWhile_id [of "\<lambda>x. x \<noteq> CHR '']''" xs] by simp
    with True c have "x # xs = [] @ ''['' @ c @ '']'' @ suf" by simp
    then show ?thesis by blast
  next
    case False
    with Cons.prems have "str_extract xs = Some c" by (simp split: if_splits)
    from Cons.IH [OF this] obtain pre suf where "xs = pre @ ''['' @ c @ '']'' @ suf" by blast
    then have "x # xs = (x # pre) @ ''['' @ c @ '']'' @ suf" by simp
    then show ?thesis by blast
  qed
qed

lemma str_extract_ci_substring:
  assumes "str_extract m = Some c"
  shows "ci_substring (''['' @ c @ '']'') m"
proof -
  from str_extract_sub [OF assms] obtain pre suf where "m = pre @ ''['' @ c @ '']'' @ suf"
    by blast
  then have "m = pre @ (''['' @ c @ '']'') @ suf" by simp
  then have "map lower_char m = map lower_char pre @ map lower_char (''['' @ c @ '']'') @ map lower_char suf"
    by (simp only: map_append)
  then show ?thesis unfolding ci_substring_def by blast
qed

lemma set_unique: "set (unique xs) = set xs"
  by (simp add: unique_def)

lemma distinct_unique: "distinct (unique xs)"
  by (simp add: unique_def)

lemma set_map_filter_eq: "set (List.map_filter f xs) = {y. \<exists>x. x \<in> set xs \<and> f x = Some y}"
  by (induction xs) (auto split: option.splits)

lemma first_tags_iff:
  "c \<in> set (first_tags df) \<longleftrightarrow>
     (\<exists>i e m. (i, e) \<in> set df \<and> message e = Some m \<and> str_extract m = Some c)"
  by (auto simp: first_tags_def set_unique set_map_filter_eq Option.bind_eq_Some_conv)


lemma selected_rows_iff:
  "(i, e) \<in> set (selected_rows df c) \<longleftrightarrow>
     (i, e) \<in> set df \<and> (\<exists>m. message e = Some m \<and> ci_substring (''['' @ c @ '']'') m)"
  by (auto simp: selected_rows_def str_contains_iff)

lemma selected_rows_case_insensitive:
  assumes "map lower_char c1 = map lower_char c2"
  shows "selected_rows df c1 = selected_rows df c2"
proof -
  have "ci_substring (''['' @ c1 @ '']'') m = ci_substring (''['' @ c2 @ '']'') m" for m
    using assms by (simp add: ci_substring_def)
  then have "str_contains [''['' @ c1 @ '']''] cell = str_contains [''['' @ c2 @ '']''] cell" for cell
    by (simp add: str_contains_iff)
  then show ?thesis by (simp add: selected_rows_def)
qed

text \<open>The folding at the ends of the ranges, and a name in capitals that selects its row.\<close>

lemma lower_char_examples:
  "map lower_char [CHR ''A'', CHR ''Z'', CHR ''a'', CHR ''@'', CHR ''['', CHR 0xC0, CHR 0xC9,
      CHR 0xD6, CHR 0xD7, CHR 0xD8, CHR 0xDE, CHR 0xDF, CHR 0xE9, CHR 0xFF]
   = [CHR ''a'', CHR ''z'', CHR ''a'', CHR ''@'', CHR ''['', CHR 0xE0, CHR 0xE9,
      CHR 0xF6, CHR 0xD7, CHR 0xF8, CHR 0xFE, CHR 0xDF, CHR 0xE9, CHR 0xFF]"
  by code_simp

lemma accented_tag_selected:
  "map fst (selected_rows (data_frame accented_tag) [CHR 0xC9]) = [0]"
  by code_simp

section \<open>Frames keep the input order\<close>

lemma data_frame_labels: "sorted_wrt (<) (map fst (data_frame evs))"
  by (simp add: data_frame_def)

lemma filter_labels:
  "sorted_wrt (<) (map fst xs) \<Longrightarrow> sorted_wrt (<) (map fst (filter P xs))"
  by (simp add: sorted_wrt_map sorted_wrt_filter)

lemma labelled_rows_labels:
  "sorted_wrt (<) (map fst df) \<Longrightarrow> sorted_wrt (<) (map fst (labelled_rows df name))"
proof -
  assume "sorted_wrt (<) (map fst df)"
  then have "sorted_wrt (<) (map fst (selected_rows df name))"
    unfolding selected_rows_def by (rule filter_labels)
  moreover have "map fst (labelled_rows df name) = map fst (selected_rows df name)"
    by (simp add: labelled_rows_def case_prod_beta comp_def)
  ultimately show ?thesis by simp
qed

lemma labelled_rows_rows:
  "map snd (labelled_rows (data_frame evs) name) = map classify (filtered_events evs name)"
proof -
  let ?P = "\<lambda>e. str_contains [''['' @ name @ '']''] (message e)"
  have "map snd (labelled_rows (data_frame evs) name)
      = map classify (map snd (filter (?P \<circ> snd) (enumerate 0 evs)))"
    by (simp add: labelled_rows_def selected_rows_def data_frame_def case_prod_unfold comp_def)
  also have "map snd (filter (?P \<circ> snd) (enumerate 0 evs)) = filter ?P (map snd (enumerate 0 evs))"
    by (rule filter_map [symmetric])
  also have "map snd (enumerate 0 evs) = evs"
    by (rule map_snd_enumerate)
  finally show ?thesis by (simp only: filtered_events_def)
qed

lemma labels_distinct:
  fixes mc :: "(nat \<times> 'a) list"
  shows "sorted_wrt (<) (map fst mc) \<Longrightarrow> distinct (map fst mc)"
  by (simp add: strict_sorted_iff)

lemma loc_date_found:
  assumes "sorted_wrt (<) (map fst (pre @ (i, r) # suf))"
  shows "loc_date (pre @ (i, r) # suf) i = Inr (date r)"
proof -
  have "distinct (map fst (pre @ (i, r) # suf))" using assms by (rule labels_distinct)
  then have "map_of (pre @ (i, r) # suf) i = Some r"
    by (intro map_of_is_SomeI) auto
  then show ?thesis by (simp add: loc_date_def)
qed

lemma subsequent_recoveries_suffix:
  assumes "sorted_wrt (<) (map fst (pre @ (i, r) # suf))"
  shows "subsequent_recoveries (pre @ (i, r) # suf) i = filter (\<lambda>(j, d). is_deployment d) suf"
proof -
  from assms have lo: "\<forall>x\<in>set pre. fst x < i" and hi: "\<forall>y\<in>set suf. i < fst y"
    by (auto simp: sorted_wrt_append)
  have "filter (\<lambda>(j, d). i < j \<and> is_deployment d) pre = []"
    using lo by (auto simp: filter_empty_conv)
  moreover have "filter (\<lambda>(j, d). i < j \<and> is_deployment d) suf = filter (\<lambda>(j, d). is_deployment d) suf"
    using hi by (intro filter_cong) auto
  ultimately show ?thesis by (simp add: subsequent_recoveries_def)
qed

lemma filter_head_find:
  "(case filter P xs of [] \<Rightarrow> None | x # _ \<Rightarrow> Some x) = find P xs"
  by (induction xs) auto

lemma find_deployment_rows:
  "find is_deployment (map snd suf) = map_option snd (find (\<lambda>(j, d). is_deployment d) suf)"
  by (induction suf) auto

text \<open>One turn of the loop, for the failure at the head of a suffix of the frame.\<close>

declare recovery_loop.simps [simp del]

lemma recovery_loop_step:
  assumes "sorted_wrt (<) (map fst (pre @ (i, r) # suf))"
  shows "recovery_loop (pre @ (i, r) # suf) (i # rest) acc =
     (case find is_deployment (map snd suf) of
        None \<Rightarrow> recovery_loop (pre @ (i, r) # suf) rest acc
      | Some d \<Rightarrow>
         (case timestamp_sub (date d) (date r) of
            Inl e \<Rightarrow> Inl e
          | Inr delta \<Rightarrow>
             (case hours delta of
                NaN \<Rightarrow> recovery_loop (pre @ (i, r) # suf) rest acc
              | Finite h \<Rightarrow>
                 recovery_loop (pre @ (i, r) # suf) rest (if h > 0 then acc @ [h] else acc))))"
proof -
  note sr = subsequent_recoveries_suffix [OF assms]
  note ld = loc_date_found [OF assms]
  show ?thesis
  proof (cases "filter (\<lambda>(j, d). is_deployment d) suf")
    case Nil
    then have "find (\<lambda>(j, d). is_deployment d) suf = None"
      using filter_head_find [of "\<lambda>(j, d). is_deployment d" suf] by simp
    then show ?thesis using Nil by (simp add: recovery_loop.simps sr ld find_deployment_rows)
  next
    case (Cons x xs)
    then have "find (\<lambda>(j, d). is_deployment d) suf = Some x"
      using filter_head_find [of "\<lambda>(j, d). is_deployment d" suf] by simp
    then show ?thesis using Cons by (cases x) (simp add: recovery_loop.simps sr ld find_deployment_rows)
  qed
qed

lemma timestamp_sub_hours:
  assumes "timestamp_sub d f = Inr delta"
  shows "(case hours delta of NaN \<Rightarrow> [] | Finite h \<Rightarrow> if h > 0 then [h] else []) = positive_hours d f"
proof (cases d)
  case None
  with assms show ?thesis by (auto simp: timestamp_sub_def hours_def positive_hours_def)
next
  case (Some a)
  show ?thesis
  proof (cases f)
    case None
    with Some assms show ?thesis by (auto simp: timestamp_sub_def hours_def positive_hours_def)
  next
    case (Some b)
    with \<open>d = Some a\<close> assms have delta: "delta = Some (a - b)"
      by (auto simp: timestamp_sub_def split: if_splits)
    have "(0 < rat_of_int (a - b) / ns_per_hour) = (0 < a - b)"
      by (simp add: ns_per_hour_def zero_less_divide_iff)
    with delta Some \<open>d = Some a\<close> show ?thesis
      by (simp add: hours_def positive_hours_def)
  qed
qed

lemma failure_indices_Cons:
  "failure_indices ((i, r) # suf) = (if is_failure r then i # failure_indices suf else failure_indices suf)"
  by (simp add: failure_indices_def)

lemma suffix_samples_step:
  "suffix_samples (map snd (pre @ (i, r) # suf)) (length pre) =
     (if is_failure r
      then (case find is_deployment (map snd suf) of None \<Rightarrow> []
            | Some d \<Rightarrow> positive_hours (date d) (date r))
      else [])
     @ suffix_samples (map snd (pre @ (i, r) # suf)) (Suc (length pre))"
proof -
  let ?rows = "map snd (pre @ (i, r) # suf)"
  have len: "length pre < length ?rows" by simp
  have nth: "?rows ! length pre = r" by (simp add: nth_append)
  have drp: "drop (Suc (length pre)) ?rows = map snd suf" by simp
  have upt: "[length pre..<length ?rows] = length pre # [Suc (length pre)..<length ?rows]"
    using len by (rule upt_conv_Cons)
  show ?thesis
    unfolding suffix_samples_def upt
    by (simp only: filter.simps nth list.map concat.simps recovery_sample_def drp split: if_splits)
      simp
qed

lemma recovery_loop_suffix:
  assumes "sorted_wrt (<) (map fst (pre @ suf))"
    and "recovery_loop (pre @ suf) (failure_indices suf) acc = Inr ts"
  shows "ts = acc @ suffix_samples (map snd (pre @ suf)) (length pre)"
  using assms
proof (induction suf arbitrary: pre acc)
  case Nil
  then show ?case by (simp add: failure_indices_def suffix_samples_def recovery_loop.simps)
next
  case (Cons x suf)
  obtain i r where x: "x = (i, r)" by (cases x)
  let ?mc = "pre @ (i, r) # suf"
  have mc: "?mc = (pre @ [(i, r)]) @ suf" by simp
  from Cons.prems(1) have sorted: "sorted_wrt (<) (map fst ?mc)" by (simp add: x)
  then have sorted': "sorted_wrt (<) (map fst ((pre @ [(i, r)]) @ suf))" by simp
  note IH = Cons.IH [OF sorted', unfolded append_assoc append_Cons append_Nil, simplified]
  show ?case
  proof (cases "is_failure r")
    case False
    with Cons.prems(2) have "recovery_loop ?mc (failure_indices suf) acc = Inr ts"
      by (simp add: x failure_indices_Cons)
    from IH [OF this] show ?thesis
      using False suffix_samples_step [of pre i r suf] by (simp add: x)
  next
    case True
    with Cons.prems(2) have loop: "recovery_loop ?mc (i # failure_indices suf) acc = Inr ts"
      by (simp add: x failure_indices_Cons)
    show ?thesis
    proof (cases "find is_deployment (map snd suf)")
      case None
      with loop have "recovery_loop ?mc (failure_indices suf) acc = Inr ts"
        by (simp add: recovery_loop_step [OF sorted])
      from IH [OF this] show ?thesis
        using True None suffix_samples_step [of pre i r suf] by (simp add: x)
    next
      case (Some d)
      show ?thesis
      proof (cases "timestamp_sub (date d) (date r)")
        case (Inl e)
        with loop Some show ?thesis by (simp add: recovery_loop_step [OF sorted])
      next
        case (Inr delta)
        let ?new = "case hours delta of NaN \<Rightarrow> [] | Finite h \<Rightarrow> if h > 0 then [h] else []"
        from loop Some Inr have "recovery_loop ?mc (failure_indices suf) (acc @ ?new) = Inr ts"
          by (simp add: recovery_loop_step [OF sorted] split: pyfloat.splits if_splits)
        from IH [OF this] have "ts = acc @ ?new @ suffix_samples (map snd ?mc) (Suc (length pre))"
          by simp
        then show ?thesis
          using True Some timestamp_sub_hours [OF Inr] suffix_samples_step [of pre i r suf]
          by (simp add: x)
      qed
    qed
  qed
qed

lemma recovery_times_position:
  assumes "sorted_wrt (<) (map fst mc)" and "recovery_times mc = Inr ts"
  shows "ts = position_samples (map snd mc)"
  using recovery_loop_suffix [of "[]" mc "[]" ts] assms
  by (simp add: recovery_times_def suffix_samples_def position_samples_def)

section \<open>Weekly groups\<close>

lemma incr_keys: "fst ` set (incr k xs) = insert k (fst ` set xs)"
  by (induction k xs rule: incr.induct) auto

lemma incr_sorted:
  "sorted_wrt (<) (map fst xs) \<Longrightarrow> sorted_wrt (<) (map fst (incr k xs))"
proof (induction k xs rule: incr.induct)
  case (1 k)
  then show ?case by simp
next
  case (2 k k' n rest)
  have "\<forall>y\<in>fst ` set (incr k rest). k' < y" if "k' < k"
    using that 2(2) by (auto simp: incr_keys)
  with 2 show ?case by (auto simp: image_iff)
qed

lemma incr_lookup:
  "sorted_wrt (<) (map fst xs) \<Longrightarrow>
   map_of (incr k xs) w =
     (if w = k then Some (case map_of xs k of None \<Rightarrow> 1 | Some n \<Rightarrow> Suc n) else map_of xs w)"
proof (induction k xs rule: incr.induct)
  case (1 k)
  then show ?case by simp
next
  case (2 k k' n rest)
  have none: "map_of rest k = None" if "k < k'"
  proof -
    from 2(2) that have "\<forall>y\<in>fst ` set rest. k < y" by auto
    then have "k \<notin> fst ` set rest" by auto
    then show ?thesis by (simp add: map_of_eq_None_iff)
  qed
  from 2 show ?case by (auto simp: none)
qed

lemma groupby_size_sorted: "sorted_wrt (<) (map fst (groupby_size ks))"
  by (induction ks rule: groupby_size.induct) (simp_all add: incr_sorted)

lemma groupby_size_keys: "fst ` set (groupby_size ks) = {w. Some w \<in> set ks}"
  by (induction ks rule: groupby_size.induct) (auto simp: incr_keys)

lemma groupby_size_lookup:
  "map_of (groupby_size ks) w =
     (if Some w \<in> set ks then Some (count_list ks (Some w)) else None)"
proof (induction ks arbitrary: w rule: groupby_size.induct)
  case 1
  then show ?case by simp
next
  case (2 ks)
  then show ?case by simp
next
  case (3 k ks)
  show ?case
    using 3 [of k] 3 [of w]
    by (simp add: incr_lookup [OF groupby_size_sorted] count_list_0_iff)
qed

lemma map_filter_id_map: "List.map_filter id (map f xs) = List.map_filter f xs"
  by (induction xs) (auto split: option.splits)

lemma count_list_map: "count_list (map f xs) y = length (filter (\<lambda>x. f x = y) xs)"
  by (induction xs) auto

lemma groupby_size_eq:
  "groupby_size ks =
     map (\<lambda>w. (w, count_list ks (Some w))) (sort (remdups (List.map_filter id ks)))"
proof -
  let ?g = "groupby_size ks"
  let ?ws = "sort (remdups (List.map_filter id ks))"
  have dist: "distinct (map fst ?g)" and srt: "sorted (map fst ?g)"
    using groupby_size_sorted [of ks] by (simp_all add: strict_sorted_iff)
  have "set (map fst ?g) = set ?ws"
    using groupby_size_keys [of ks] by (auto simp: set_map_filter_eq)
  with dist srt have keys: "map fst ?g = ?ws"
    by (intro sorted_distinct_set_unique) simp_all
  have "p = (fst p, count_list ks (Some (fst p)))" if "p \<in> set ?g" for p
  proof -
    from that dist have "map_of ?g (fst p) = Some (snd p)" by simp
    then have "snd p = count_list ks (Some (fst p))"
      by (simp add: groupby_size_lookup split: if_splits)
    then show ?thesis by (simp add: prod_eq_iff)
  qed
  then have "map (\<lambda>p. (fst p, count_list ks (Some (fst p)))) ?g = ?g"
    by (intro map_idI) simp
  then have "?g = map (\<lambda>w. (w, count_list ks (Some w))) (map fst ?g)"
    by (simp add: comp_def)
  with keys show ?thesis by simp
qed

lemma week_keys:
  "map (\<lambda>(i, r). to_period_W (date r)) (filter (\<lambda>(i, r). is_deployment r) mc) =
     map (\<lambda>r. to_period_W (date r)) (filter is_deployment (map snd mc))"
  by (simp add: filter_map comp_def case_prod_unfold)

lemma week_sizes_eq:
  "week_sizes mc =
     map (\<lambda>w. (w, week_count (map snd mc) w)) (active_weeks (map snd mc))"
proof -
  let ?rows = "map snd mc"
  let ?ks = "map (\<lambda>r. to_period_W (date r)) (filter is_deployment ?rows)"
  have "count_list ?ks (Some w) = week_count ?rows w" for w
    by (simp add: count_list_map week_count_def conj_commute)
  then show ?thesis
    by (simp only: week_sizes_def week_keys groupby_size_eq map_filter_id_map active_weeks_def)
qed

lemma dropna_Finite: "dropna (map (\<lambda>x. Finite (f x)) xs) = map f xs"
  by (induction xs) auto

lemma weekly_deployment_freq_eq:
  assumes "deployment_count mc > 0"
  shows "weekly_deployment_freq mc =
     (if active_weeks (map snd mc) = [] then NaN
      else Finite (sum_list (map (\<lambda>w. of_nat (week_count (map snd mc) w)) (active_weeks (map snd mc)))
             / of_nat (length (active_weeks (map snd mc)))))"
proof -
  have "map (\<lambda>(w, n). Finite (of_nat n)) (week_sizes mc)
      = map (\<lambda>w. Finite (of_nat (week_count (map snd mc) w))) (active_weeks (map snd mc))"
    by (simp add: week_sizes_eq comp_def)
  then have "dropna (map (\<lambda>(w, n). Finite (of_nat n)) (week_sizes mc))
      = map (\<lambda>w. of_nat (week_count (map snd mc) w)) (active_weeks (map snd mc))"
    by (simp only: dropna_Finite)
  with assms show ?thesis
    by (simp add: weekly_deployment_freq_def series_mean_def)
qed

section \<open>Lead time and the report\<close>

lemma traverse_map_Inr:
  "(\<And>p. p \<in> set ps \<Longrightarrow> f (h p) = Inr (g p)) \<Longrightarrow> traverse f (map h ps) = Inr (map g ps)"
  by (induction ps) simp_all

lemma traverse_member:
  "traverse f xs = Inr ys \<Longrightarrow> x \<in> set xs \<Longrightarrow> \<exists>y. y \<in> set ys \<and> f x = Inr y"
  by (induction xs arbitrary: ys) (auto split: sum.splits)

lemma index_union_labels:
  fixes mc :: "row frame"
  assumes "sorted_wrt (<) (map fst mc)"
  shows "index_union (deployment_times mc) (dates mc) = map fst mc"
proof -
  let ?u = "map fst (deployment_times mc) @ map fst (dates mc)"
  have "set ?u = set (map fst mc)"
    by (auto simp: deployment_times_def dates_def case_prod_unfold)
  moreover have "sorted (map fst mc)" "distinct (map fst mc)"
    using assms by (simp_all add: strict_sorted_iff)
  ultimately have "sort (remdups ?u) = map fst mc"
    by (intro sorted_distinct_set_unique) simp_all
  then show ?thesis by (simp add: index_union_def)
qed

lemma reindex_dates:
  fixes mc :: "row frame"
  assumes "distinct (map fst mc)" and "(i, r) \<in> set mc"
  shows "reindex (dates mc) i = date r"
proof -
  have "distinct (map fst (dates mc))"
    using assms(1) by (simp add: dates_def case_prod_unfold comp_def)
  moreover have "(i, date r) \<in> set (dates mc)"
    using assms(2) by (force simp: dates_def)
  ultimately have "map_of (dates mc) i = Some (date r)" by simp
  then show ?thesis by (simp add: reindex_def)
qed

lemma reindex_deployment_times:
  fixes mc :: "row frame"
  assumes "distinct (map fst mc)" and "(i, r) \<in> set mc"
  shows "reindex (deployment_times mc) i = (if is_deployment r then date r else None)"
proof (cases "is_deployment r")
  case True
  have "distinct (map fst (filter (\<lambda>(i, r). is_deployment r) mc))"
    using assms(1) by (simp add: distinct_map_filter)
  then have "distinct (map fst (deployment_times mc))"
    by (simp add: deployment_times_def case_prod_unfold comp_def)
  moreover have "(i, date r) \<in> set (deployment_times mc)"
    using assms(2) True by (force simp: deployment_times_def)
  ultimately have "map_of (deployment_times mc) i = Some (date r)" by simp
  with True show ?thesis by (simp add: reindex_def)
next
  case False
  have "i \<notin> fst ` set (deployment_times mc)"
  proof
    assume "i \<in> fst ` set (deployment_times mc)"
    then obtain r' where r': "(i, r') \<in> set mc" "is_deployment r'"
      by (auto simp: deployment_times_def)
    with assms have "r' = r" by (meson eq_key_imp_eq_value)
    with r' False show False by simp
  qed
  then have "map_of (deployment_times mc) i = None" by (simp add: map_of_eq_None_iff)
  with False show ?thesis by (simp add: reindex_def)
qed

lemma datetime_sub_self: "datetime_sub d d = Inr (map_option (\<lambda>t. 0) d)"
  by (cases d) (simp_all add: datetime_sub_def int64_min_def int64_max_def)

lemma series_sub_own:
  fixes mc :: "row frame"
  assumes "sorted_wrt (<) (map fst mc)"
  shows "series_sub (deployment_times mc) (dates mc) = Inr (map (\<lambda>(i, r). (i, own_difference r)) mc)"
proof -
  have dist: "distinct (map fst mc)" using assms by (rule labels_distinct)
  have step: "map_sum id (Pair (fst p))
        (datetime_sub (reindex (deployment_times mc) (fst p)) (reindex (dates mc) (fst p)))
      = Inr (fst p, own_difference (snd p))" if "p \<in> set mc" for p
  proof -
    from that have mem: "(fst p, snd p) \<in> set mc" by simp
    show ?thesis
      by (cases "date (snd p)")
        (simp_all add: reindex_dates [OF dist mem] reindex_deployment_times [OF dist mem]
          own_difference_def datetime_sub_self datetime_sub_def int64_min_def int64_max_def)
  qed
  have "traverse (\<lambda>i. map_sum id (Pair i)
          (datetime_sub (reindex (deployment_times mc) i) (reindex (dates mc) i))) (map fst mc)
      = Inr (map (\<lambda>p. (fst p, own_difference (snd p))) mc)"
    using step by (rule traverse_map_Inr)
  then show ?thesis
    by (simp add: series_sub_def index_union_labels [OF assms] case_prod_unfold)
qed

lemma lead_times_own:
  fixes mc :: "row frame"
  assumes "sorted_wrt (<) (map fst mc)"
  shows "lead_times mc = Inr (map (\<lambda>(i, r). hours (own_difference r)) mc)"
  by (simp add: lead_times_def series_sub_own [OF assms] case_prod_unfold comp_def)

lemma dropna_own:
  "dropna (map (\<lambda>(i, r). hours (own_difference r)) mc) =
     map (\<lambda>p. 0) (filter (\<lambda>(i, r). is_deployment r \<and> date r \<noteq> None) mc)"
proof (induction mc)
  case Nil
  then show ?case by simp
next
  case (Cons p ps)
  then show ?case
    by (cases "date (snd p)") (simp_all add: case_prod_unfold own_difference_def hours_def)
qed

lemma sum_list_zeros: "sum_list (map (\<lambda>p. 0 :: rat) xs) = 0"
  by (induction xs) simp_all

text \<open>The lead time the engine computes: 0 or \<^verbatim>\<open>nan\<close>.\<close>

lemma lead_time_for_changes_eq:
  fixes mc :: "row frame"
  assumes "sorted_wrt (<) (map fst mc)"
  shows "lead_time_for_changes mc =
     Inr (if deployment_count mc > 0
            \<and> filter (\<lambda>(i, r). is_deployment r \<and> date r \<noteq> None) mc = []
          then NaN else Finite 0)"
proof (cases "deployment_count mc > 0")
  case False
  then show ?thesis by (simp add: lead_time_for_changes_def)
next
  case True
  then have "mc \<noteq> []" by (auto simp: deployment_count_def)
  with True show ?thesis
    by (simp add: lead_time_for_changes_def lead_times_own [OF assms] series_mean_def
        dropna_own sum_list_zeros)
qed

lemma holds_text_member: "(i, e) \<in> set df \<Longrightarrow> message e = Some m \<Longrightarrow> holds_text df"
  by (auto simp: holds_text_def list_ex_iff)

lemma select_module_eq:
  "select_module df name =
     (if holds_text df then Inr (selected_rows df name) else Inl AttributeError)"
  by (simp add: select_module_def selected_rows_def)

lemma module_commits_eq:
  "module_commits df name =
     (if holds_text df then Inr (labelled_rows df name) else Inl AttributeError)"
  by (simp add: module_commits_def select_module_eq labelled_rows_def)

lemma extract_components_eq:
  "extract_components df = (if holds_text df then Inr (first_tags df) else Inl AttributeError)"
  by (simp add: extract_components_def first_tags_def)

lemma calculate_dora_metrics_raises:
  "\<not> holds_text df \<Longrightarrow> calculate_dora_metrics df name = Inl AttributeError"
  by (simp add: calculate_dora_metrics_def module_commits_eq)

lemma calculate_dora_metrics_fields:
  assumes "calculate_dora_metrics df name = Inr rep"
  shows "Module_Name rep = name"
    and "Total_Commits rep = length (labelled_rows df name)"
    and "Total_Bugs rep = bug_count (labelled_rows df name)"
    and "Total_PRs rep = pr_count (labelled_rows df name)"
    and "Weekly_Deployment_Frequency rep = weekly_deployment_freq (labelled_rows df name)"
    and "Change_Failure_Rate rep = change_failure_rate (labelled_rows df name)"
    and "mean_time_to_recovery (labelled_rows df name) = Inr (Mean_Time_to_Recovery rep)"
    and "lead_time_for_changes (labelled_rows df name) = Inr (Lead_Time_for_Changes rep)"
    and "holds_text df"
    and "module_commits df name = Inr (labelled_rows df name)"
  using assms
  by (auto simp: calculate_dora_metrics_def module_commits_eq split: sum.splits if_splits)

lemma calculate_dora_metrics_Inr:
  assumes "holds_text df"
    and "mean_time_to_recovery (labelled_rows df name) = Inr mttr"
    and "lead_time_for_changes (labelled_rows df name) = Inr lead"
  shows "calculate_dora_metrics df name =
     Inr \<lparr>Module_Name = name,
          Total_Commits = length (labelled_rows df name),
          Total_Bugs = bug_count (labelled_rows df name),
          Total_PRs = pr_count (labelled_rows df name),
          Weekly_Deployment_Frequency = weekly_deployment_freq (labelled_rows df name),
          Change_Failure_Rate = change_failure_rate (labelled_rows df name),
          Mean_Time_to_Recovery = mttr,
          Lead_Time_for_Changes = lead\<rparr>"
  using assms by (simp add: calculate_dora_metrics_def module_commits_eq)

section \<open>The claims\<close>

lemma labelled_rows_data_frame_labels:
  "sorted_wrt (<) (map fst (labelled_rows (data_frame evs) name))"
  by (rule labelled_rows_labels [OF data_frame_labels])

lemma classified_rows: "map snd (labelled_rows (data_frame evs) name) = classified evs name"
  by (simp only: labelled_rows_rows classified_def)

lemma label_filter_rows:
  "length (filter (\<lambda>(i, r). P r) mc) = length (filter P (map snd mc))"
  by (simp add: filter_map comp_def case_prod_unfold)

lemma counts_rows:
  "deployment_count (labelled_rows (data_frame evs) name) = length (filter is_deployment (classified evs name))"
  "failure_count (labelled_rows (data_frame evs) name) = length (filter is_failure (classified evs name))"
  "bug_count (labelled_rows (data_frame evs) name) = length (filter is_bug (classified evs name))"
  "pr_count (labelled_rows (data_frame evs) name) = length (filter is_pr (classified evs name))"
  "length (labelled_rows (data_frame evs) name) = length (classified evs name)"
  unfolding deployment_count_def failure_count_def bug_count_def pr_count_def label_filter_rows
    classified_rows [symmetric]
  by simp_all

text \<open>
  Claim C6. The change-failure rate of a report is the number of failure-labelled events of
  the filtered set divided by the number of its deployment-labelled events, times 100, when
  there is a deployment, and 0 otherwise. Nothing caps it: two bugs and one release give 200.
\<close>

theorem C6_change_failure_rate:
  "(calculate_dora_metrics (data_frame evs) name = Inr rep \<longrightarrow>
      Change_Failure_Rate rep =
        (if length (filter is_deployment (classified evs name)) > 0
         then Finite (of_nat (length (filter is_failure (classified evs name)))
                / of_nat (length (filter is_deployment (classified evs name))) * 100)
         else Finite 0))
   \<and> (\<exists>log r x. calculate_dora_metrics (data_frame log) ''X'' = Inr r
          \<and> Change_Failure_Rate r = Finite x \<and> 100 < x)"
proof -
  have general: "Change_Failure_Rate rep =
        (if length (filter is_deployment (classified evs name)) > 0
         then Finite (of_nat (length (filter is_failure (classified evs name)))
                / of_nat (length (filter is_deployment (classified evs name))) * 100)
         else Finite 0)" if "calculate_dora_metrics (data_frame evs) name = Inr rep"
    using calculate_dora_metrics_fields(6) [OF that]
    by (simp only: change_failure_rate_def counts_rows)
  have "calculate_dora_metrics (data_frame two_bugs_one_release) ''X'' =
      Inr \<lparr>Module_Name = ''X'', Total_Commits = 3, Total_Bugs = 2, Total_PRs = 0,
        Weekly_Deployment_Frequency = Finite 1, Change_Failure_Rate = Finite 200,
        Mean_Time_to_Recovery = Finite (3 / 2), Lead_Time_for_Changes = Finite 0\<rparr>"
    by code_simp
  then have "\<exists>log r x. calculate_dora_metrics (data_frame log) ''X'' = Inr r
          \<and> Change_Failure_Rate r = Finite x \<and> 100 < x"
    by (intro exI [of _ two_bugs_one_release] exI [of _ "200 :: rat"]) auto
  with general show ?thesis by blast
qed

theorem C6_change_failure_rate_witness:
  "calculate_dora_metrics (data_frame two_bugs_one_release) ''X'' =
      Inr \<lparr>Module_Name = ''X'', Total_Commits = 3, Total_Bugs = 2, Total_PRs = 0,
        Weekly_Deployment_Frequency = Finite 1, Change_Failure_Rate = Finite 200,
        Mean_Time_to_Recovery = Finite (3 / 2), Lead_Time_for_Changes = Finite 0\<rparr>
   \<and> length (filter is_deployment (classified two_bugs_one_release ''X'')) = 1
   \<and> length (filter is_failure (classified two_bugs_one_release ''X'')) = 2
   \<and> Finite (of_nat 2 / of_nat 1 * 100) = Finite 200"
proof -
  let ?rep = "\<lparr>Module_Name = ''X'', Total_Commits = 3, Total_Bugs = 2, Total_PRs = 0,
        Weekly_Deployment_Frequency = Finite 1, Change_Failure_Rate = Finite 200,
        Mean_Time_to_Recovery = Finite (3 / 2), Lead_Time_for_Changes = Finite 0\<rparr>"
  have run: "calculate_dora_metrics (data_frame two_bugs_one_release) ''X'' = Inr ?rep"
    by code_simp
  have d: "length (filter is_deployment (classified two_bugs_one_release ''X'')) = 1"
    by code_simp
  have f: "length (filter is_failure (classified two_bugs_one_release ''X'')) = 2"
    by code_simp
  from C6_change_failure_rate [of two_bugs_one_release "''X''" ?rep] run
  have "Change_Failure_Rate ?rep =
        (if length (filter is_deployment (classified two_bugs_one_release ''X'')) > 0
         then Finite (of_nat (length (filter is_failure (classified two_bugs_one_release ''X'')))
                / of_nat (length (filter is_deployment (classified two_bugs_one_release ''X''))) * 100)
         else Finite 0)"
    by blast
  then have "Finite (of_nat 2 / of_nat 1 * 100) = Finite 200"
    by (simp only: d f) simp
  with run d f show ?thesis by blast
qed

lemma active_weeks_set:
  "set (active_weeks rows) = {w. \<exists>r. r \<in> set rows \<and> is_deployment r \<and> to_period_W (date r) = Some w}"
  by (auto simp: active_weeks_def set_map_filter_eq)

lemma active_weeks_distinct: "distinct (active_weeks rows)"
  by (simp add: active_weeks_def)

text \<open>
  Claim C5. With at least one deployment-labelled event in the filtered set, the weekly
  deployment frequency is the arithmetic mean of the per-week deployment counts, over the
  Monday-to-Sunday weeks that hold at least one deployment: the sum of the counts of those
  weeks divided by their number. A week without deployments is not among them. (When no
  deployment has a timestamp there is no such week, and the value is \<^verbatim>\<open>nan\<close>.)
\<close>

theorem C5_weekly_deployment_frequency:
  assumes "calculate_dora_metrics (data_frame evs) name = Inr rep"
    and "filter is_deployment (classified evs name) \<noteq> []"
  shows "Weekly_Deployment_Frequency rep =
      (if active_weeks (classified evs name) = [] then NaN
       else Finite (sum_list (map (\<lambda>w. of_nat (week_count (classified evs name) w))
                      (active_weeks (classified evs name)))
              / of_nat (length (active_weeks (classified evs name)))))
    \<and> distinct (active_weeks (classified evs name))
    \<and> set (active_weeks (classified evs name)) =
        {w. \<exists>r. r \<in> set (classified evs name) \<and> is_deployment r \<and> to_period_W (date r) = Some w}"
proof -
  from assms(2) have "deployment_count (labelled_rows (data_frame evs) name) > 0"
    by (simp add: counts_rows)
  from weekly_deployment_freq_eq [OF this] calculate_dora_metrics_fields(5) [OF assms(1)]
  have "Weekly_Deployment_Frequency rep =
      (if active_weeks (classified evs name) = [] then NaN
       else Finite (sum_list (map (\<lambda>w. of_nat (week_count (classified evs name) w))
                      (active_weeks (classified evs name)))
              / of_nat (length (active_weeks (classified evs name)))))"
    by (simp only: classified_rows)
  then show ?thesis
    using active_weeks_set [of "classified evs name"] active_weeks_distinct [of "classified evs name"]
    by blast
qed

theorem C5_weekly_deployment_frequency_witness:
  "calculate_dora_metrics (data_frame three_releases) ''X'' =
      Inr \<lparr>Module_Name = ''X'', Total_Commits = 3, Total_Bugs = 0, Total_PRs = 0,
        Weekly_Deployment_Frequency = Finite (3 / 2), Change_Failure_Rate = Finite 0,
        Mean_Time_to_Recovery = Finite 0, Lead_Time_for_Changes = Finite 0\<rparr>
   \<and> active_weeks (classified three_releases ''X'') = [2818, 2819]
   \<and> map (week_count (classified three_releases ''X'')) [2818, 2819] = [2, 1]
   \<and> Finite (3 / 2) = Finite ((of_nat 2 + of_nat 1) / of_nat 2)"
proof -
  let ?rep = "\<lparr>Module_Name = ''X'', Total_Commits = 3, Total_Bugs = 0, Total_PRs = 0,
        Weekly_Deployment_Frequency = Finite (3 / 2), Change_Failure_Rate = Finite 0,
        Mean_Time_to_Recovery = Finite 0, Lead_Time_for_Changes = Finite 0\<rparr>"
  have run: "calculate_dora_metrics (data_frame three_releases) ''X'' = Inr ?rep"
    by code_simp
  have dep: "filter is_deployment (classified three_releases ''X'') \<noteq> []"
    by code_simp
  have weeks: "active_weeks (classified three_releases ''X'') = [2818, 2819]"
    by code_simp
  have counts: "map (week_count (classified three_releases ''X'')) [2818, 2819] = [2, 1]"
    by code_simp
  from C5_weekly_deployment_frequency [OF run dep]
  have "Weekly_Deployment_Frequency ?rep =
      (if active_weeks (classified three_releases ''X'') = [] then NaN
       else Finite (sum_list (map (\<lambda>w. of_nat (week_count (classified three_releases ''X'') w))
                      (active_weeks (classified three_releases ''X'')))
              / of_nat (length (active_weeks (classified three_releases ''X'')))))"
    by blast
  then have "Finite (3 / 2) = Finite ((of_nat 2 + of_nat 1) / of_nat 2)"
    using counts by (simp add: weeks)
  with run weeks counts show ?thesis by blast
qed

lemma mean_time_to_recovery_position:
  assumes "calculate_dora_metrics (data_frame evs) name = Inr rep"
  shows "recovery_times (labelled_rows (data_frame evs) name) = Inr (position_samples (classified evs name))"
    and "Mean_Time_to_Recovery rep = Finite (mean_of_times (position_samples (classified evs name)))"
proof -
  let ?mc = "labelled_rows (data_frame evs) name"
  from calculate_dora_metrics_fields(7) [OF assms]
  obtain ts where ts: "recovery_times ?mc = Inr ts"
    and mttr: "Mean_Time_to_Recovery rep = Finite (mean_of_times ts)"
    by (cases "recovery_times ?mc") (auto simp: mean_time_to_recovery_def)
  from recovery_times_position [OF labelled_rows_data_frame_labels ts]
  have "ts = position_samples (classified evs name)" by (simp only: classified_rows)
  with ts mttr show "recovery_times ?mc = Inr (position_samples (classified evs name))"
    and "Mean_Time_to_Recovery rep = Finite (mean_of_times (position_samples (classified evs name)))"
    by simp_all
qed




lemma lead_time_zero_or_nan:
  assumes "calculate_dora_metrics (data_frame evs) name = Inr rep"
  shows "Lead_Time_for_Changes rep = Finite 0 \<or> Lead_Time_for_Changes rep = NaN"
  using calculate_dora_metrics_fields(8) [OF assms]
    lead_time_for_changes_eq [OF labelled_rows_data_frame_labels, of evs name]
  by (auto split: if_splits)

text \<open>
  Claim C1 at a change followed five hours later by its release. The cross-join of the one
  deployment timestamp with the two event timestamps has the durations 5 and 0, of mean 2.5.
  The engine subtracts two Series, which pandas aligns on the row labels: the deployment row
  is paired with itself and the other row with nothing, and the lead time is 0.
\<close>

theorem C1_lead_time_failing_input:
  "map_sum id Lead_Time_for_Changes
       (calculate_dora_metrics (data_frame change_then_release) ''X'') = Inr (Finite 0)
   \<and> cross_join_lead_time (classified change_then_release ''X'') = 5 / 2"
proof -
  have "map_sum id Lead_Time_for_Changes
       (calculate_dora_metrics (data_frame change_then_release) ''X'') = Inr (Finite 0)"
    by code_simp
  moreover have "cross_join_lead_time (classified change_then_release ''X'') = 5 / 2"
    by code_simp
  ultimately show ?thesis by blast
qed

text \<open>
  Claim C3 at a single release whose date could not be parsed. The deployment count is 1,
  so both guards take the computing branch; no week and no difference is left to average,
  and the weekly deployment frequency and the lead time of the report are \<^verbatim>\<open>nan\<close>.
\<close>

theorem C3_nan_failing_input:
  "calculate_dora_metrics (data_frame undated_release) ''X'' =
      Inr \<lparr>Module_Name = ''X'', Total_Commits = 1, Total_Bugs = 0, Total_PRs = 0,
        Weekly_Deployment_Frequency = NaN, Change_Failure_Rate = Finite 0,
        Mean_Time_to_Recovery = Finite 0, Lead_Time_for_Changes = NaN\<rparr>
   \<and> \<not> is_finite NaN"
proof -
  have "calculate_dora_metrics (data_frame undated_release) ''X'' =
      Inr \<lparr>Module_Name = ''X'', Total_Commits = 1, Total_Bugs = 0, Total_PRs = 0,
        Weekly_Deployment_Frequency = NaN, Change_Failure_Rate = Finite 0,
        Mean_Time_to_Recovery = Finite 0, Lead_Time_for_Changes = NaN\<rparr>"
    by code_simp
  moreover have "\<not> is_finite NaN" by (simp add: is_finite_def)
  ultimately show ?thesis by blast
qed

text \<open>
  Claim C4, as the code has it. An event is counted for a component exactly when its
  message has the component's name between brackets somewhere, compared without regard to
  case; it need not be the first tag of the message. Every event whose first tag is a
  component's name is discovered with that component and counted for it, and the total of
  a report is the number of events so selected.
\<close>

theorem C4_component_membership:
  "(select_module df c = Inr sel \<longrightarrow>
      ((i, e) \<in> set sel \<longleftrightarrow>
         (i, e) \<in> set df \<and> (\<exists>m. message e = Some m \<and> ci_substring (''['' @ c @ '']'') m)))
   \<and> ((i, e) \<in> set df \<and> message e = Some m \<and> str_extract m = Some c \<longrightarrow>
        (\<exists>components rows. extract_components df = Inr components \<and> c \<in> set components
           \<and> select_module df c = Inr rows \<and> (i, e) \<in> set rows))
   \<and> (calculate_dora_metrics df c = Inr rep \<longrightarrow>
        (\<exists>rows. select_module df c = Inr rows \<and> Total_Commits rep = length rows))"
proof -
  have a: "(i, e) \<in> set sel \<longleftrightarrow>
      (i, e) \<in> set df \<and> (\<exists>m. message e = Some m \<and> ci_substring (''['' @ c @ '']'') m)"
    if "select_module df c = Inr sel"
  proof -
    from that have "sel = selected_rows df c"
      by (simp add: select_module_eq split: if_splits)
    then show ?thesis by (simp only: selected_rows_iff)
  qed
  have b: "\<exists>components rows. extract_components df = Inr components \<and> c \<in> set components
           \<and> select_module df c = Inr rows \<and> (i, e) \<in> set rows"
    if "(i, e) \<in> set df" "message e = Some m" "str_extract m = Some c"
  proof -
    from that(1,2) have ht: "holds_text df" by (rule holds_text_member)
    have "c \<in> set (first_tags df)" "(i, e) \<in> set (selected_rows df c)"
      using that str_extract_ci_substring [OF that(3)]
      by (auto simp only: first_tags_iff selected_rows_iff)
    moreover from ht have "extract_components df = Inr (first_tags df)"
      "select_module df c = Inr (selected_rows df c)"
      by (simp_all add: extract_components_eq select_module_eq)
    ultimately show ?thesis by blast
  qed
  have c: "\<exists>rows. select_module df c = Inr rows \<and> Total_Commits rep = length rows"
    if "calculate_dora_metrics df c = Inr rep"
  proof -
    from calculate_dora_metrics_fields(9) [OF that]
    have "select_module df c = Inr (selected_rows df c)" by (simp add: select_module_eq)
    moreover have "Total_Commits rep = length (selected_rows df c)"
      using calculate_dora_metrics_fields(2) [OF that] by (simp add: labelled_rows_def)
    ultimately show ?thesis by blast
  qed
  from a b c show ?thesis by blast
qed

theorem C4_component_membership_witness:
  "(0, ev (Some 0) ''[A] [B] release'') \<in> set (data_frame two_tags)
   \<and> message (ev (Some 0) ''[A] [B] release'') = Some ''[A] [B] release''
   \<and> str_extract ''[A] [B] release'' = Some ''A''
   \<and> (\<exists>components rows. extract_components (data_frame two_tags) = Inr components
        \<and> ''A'' \<in> set components
        \<and> select_module (data_frame two_tags) ''A'' = Inr rows
        \<and> (0, ev (Some 0) ''[A] [B] release'') \<in> set rows)"
proof -
  define e where "e = ev (Some 0) ''[A] [B] release''"
  define m where "m = ''[A] [B] release''"
  define c where "c = ''A''"
  define df where "df = data_frame two_tags"
  have 1: "(0, e) \<in> set df"
    unfolding e_def df_def by code_simp
  have 2: "message e = Some m"
    unfolding e_def m_def by code_simp
  have 3: "str_extract m = Some c"
    unfolding m_def c_def by code_simp
  from C4_component_membership [of df c _ 0 e m]
  have "(0, e) \<in> set df \<and> message e = Some m \<and> str_extract m = Some c \<longrightarrow>
        (\<exists>components rows. extract_components df = Inr components \<and> c \<in> set components
           \<and> select_module df c = Inr rows \<and> (0, e) \<in> set rows)"
    by (rule conjunct1 [OF conjunct2])
  with 1 2 3 have "(0, e) \<in> set df \<and> message e = Some m \<and> str_extract m = Some c
      \<and> (\<exists>components rows. extract_components df = Inr components \<and> c \<in> set components
           \<and> select_module df c = Inr rows \<and> (0, e) \<in> set rows)"
    by blast
  then show ?thesis
    unfolding e_def m_def c_def df_def .
qed

text \<open>
  Claim C4, as the specification has it, fails: the first message below has the tags A and
  B, both components are discovered, and the event with label 0 is selected for both and
  counted in both reports.
\<close>

theorem C4_two_components_counterexample:
  "extract_components (data_frame two_tags) = Inr [''A'', ''B'']
   \<and> map_sum id (map fst) (select_module (data_frame two_tags) ''A'') = Inr [0]
   \<and> map_sum id (map fst) (select_module (data_frame two_tags) ''B'') = Inr [0, 1]
   \<and> map_sum id Total_Commits (calculate_dora_metrics (data_frame two_tags) ''A'') = Inr 1
   \<and> map_sum id Total_Commits (calculate_dora_metrics (data_frame two_tags) ''B'') = Inr 2"
proof -
  have "extract_components (data_frame two_tags) = Inr [''A'', ''B'']" by code_simp
  moreover have "map_sum id (map fst) (select_module (data_frame two_tags) ''A'') = Inr [0]"
    by code_simp
  moreover have "map_sum id (map fst) (select_module (data_frame two_tags) ''B'') = Inr [0, 1]"
    by code_simp
  moreover have "map_sum id Total_Commits (calculate_dora_metrics (data_frame two_tags) ''A'') = Inr 1"
    by code_simp
  moreover have "map_sum id Total_Commits (calculate_dora_metrics (data_frame two_tags) ''B'') = Inr 2"
    by code_simp
  ultimately show ?thesis by blast
qed

lemma labelled_rows_case_insensitive:
  "map lower_char c1 = map lower_char c2 \<Longrightarrow> labelled_rows df c1 = labelled_rows df c2"
  by (simp only: labelled_rows_def selected_rows_case_insensitive [of c1 c2 df])

lemma calculate_dora_metrics_case_insensitive:
  assumes "map lower_char c1 = map lower_char c2"
  shows "calculate_dora_metrics df c2 =
     map_sum id (\<lambda>rep. rep\<lparr>Module_Name := c2\<rparr>) (calculate_dora_metrics df c1)"
proof (cases "holds_text df")
  case False
  then show ?thesis by (simp add: calculate_dora_metrics_raises)
next
  case True
  note same = labelled_rows_case_insensitive [OF assms, of df]
  show ?thesis
  proof (cases "mean_time_to_recovery (labelled_rows df c2)")
    case (Inl e)
    then show ?thesis by (simp add: calculate_dora_metrics_def module_commits_eq True same)
  next
    case mttr: (Inr m)
    show ?thesis
    proof (cases "lead_time_for_changes (labelled_rows df c2)")
      case (Inl e)
      with mttr show ?thesis by (simp add: calculate_dora_metrics_def module_commits_eq True same)
    next
      case (Inr l)
      with mttr show ?thesis by (simp add: calculate_dora_metrics_def module_commits_eq True same)
    qed
  qed
qed

text \<open>
  Claim C10. When two messages of the log have first tags that differ, but only in letter
  case, both tags are discovered as components, the filter selects the same rows for both,
  and the two reports agree in every field but the name (or the computation raises for
  both); when \<^verbatim>\<open>main\<close> returns, both reports are in its result.
\<close>

theorem C10_case_variants:
  assumes "(i1, e1) \<in> set df" and "message e1 = Some m1" and "str_extract m1 = Some c1"
    and "(i2, e2) \<in> set df" and "message e2 = Some m2" and "str_extract m2 = Some c2"
    and "c1 \<noteq> c2" and "map lower_char c1 = map lower_char c2"
  shows "(\<exists>components. extract_components df = Inr components
          \<and> c1 \<in> set components \<and> c2 \<in> set components \<and> distinct components)
    \<and> (\<exists>rows. module_commits df c1 = Inr rows \<and> module_commits df c2 = Inr rows)
    \<and> calculate_dora_metrics df c2 =
        map_sum id (\<lambda>rep. rep\<lparr>Module_Name := c2\<rparr>) (calculate_dora_metrics df c1)
    \<and> (\<forall>reps. main df = Inr reps \<longrightarrow>
         (\<exists>r1 r2. r1 \<in> set reps \<and> r2 \<in> set reps
            \<and> calculate_dora_metrics df c1 = Inr r1 \<and> calculate_dora_metrics df c2 = Inr r2
            \<and> Module_Name r1 = c1 \<and> r2 = r1\<lparr>Module_Name := c2\<rparr>))"
proof -
  from assms(1,2) have ht: "holds_text df" by (rule holds_text_member)
  have in1: "c1 \<in> set (first_tags df)"
    using assms(1-3) by (auto simp only: first_tags_iff)
  have in2: "c2 \<in> set (first_tags df)"
    using assms(4-6) by (auto simp only: first_tags_iff)
  have dist: "distinct (first_tags df)"
    by (simp add: first_tags_def distinct_unique)
  have comps: "extract_components df = Inr (first_tags df)"
    using ht by (simp add: extract_components_eq)
  have found: "\<exists>components. extract_components df = Inr components
          \<and> c1 \<in> set components \<and> c2 \<in> set components \<and> distinct components"
    using comps in1 in2 dist by blast
  have same: "\<exists>rows. module_commits df c1 = Inr rows \<and> module_commits df c2 = Inr rows"
    using ht labelled_rows_case_insensitive [OF assms(8), of df]
    by (simp add: module_commits_eq)
  note rep = calculate_dora_metrics_case_insensitive [OF assms(8), of df]
  have both: "\<exists>r1 r2. r1 \<in> set reps \<and> r2 \<in> set reps
            \<and> calculate_dora_metrics df c1 = Inr r1 \<and> calculate_dora_metrics df c2 = Inr r2
            \<and> Module_Name r1 = c1 \<and> r2 = r1\<lparr>Module_Name := c2\<rparr>"
    if "main df = Inr reps" for reps
  proof -
    from that have tr: "traverse (calculate_dora_metrics df) (first_tags df) = Inr reps"
      by (simp add: main_def comps)
    from traverse_member [OF tr in1] obtain r1
      where r1: "r1 \<in> set reps" "calculate_dora_metrics df c1 = Inr r1" by blast
    from traverse_member [OF tr in2] obtain r2
      where r2: "r2 \<in> set reps" "calculate_dora_metrics df c2 = Inr r2" by blast
    from rep r1(2) r2(2) have "r2 = r1\<lparr>Module_Name := c2\<rparr>" by simp
    moreover have "Module_Name r1 = c1" by (rule calculate_dora_metrics_fields(1) [OF r1(2)])
    ultimately show ?thesis using r1 r2 by blast
  qed
  have all: "\<forall>reps. main df = Inr reps \<longrightarrow>
         (\<exists>r1 r2. r1 \<in> set reps \<and> r2 \<in> set reps
            \<and> calculate_dora_metrics df c1 = Inr r1 \<and> calculate_dora_metrics df c2 = Inr r2
            \<and> Module_Name r1 = c1 \<and> r2 = r1\<lparr>Module_Name := c2\<rparr>)"
    by (intro allI impI) (rule both)
  show ?thesis
    by (intro conjI) (fact found same rep all)+
qed

theorem C10_case_variants_witness:
  "extract_components (data_frame case_variants) = Inr [''Auth'', ''auth'']
   \<and> module_commits (data_frame case_variants) ''Auth'' = module_commits (data_frame case_variants) ''auth''
   \<and> calculate_dora_metrics (data_frame case_variants) ''Auth'' =
      Inr \<lparr>Module_Name = ''Auth'', Total_Commits = 2, Total_Bugs = 1, Total_PRs = 0,
        Weekly_Deployment_Frequency = Finite 1, Change_Failure_Rate = Finite 100,
        Mean_Time_to_Recovery = Finite 1, Lead_Time_for_Changes = Finite 0\<rparr>
   \<and> calculate_dora_metrics (data_frame case_variants) ''auth'' =
      Inr \<lparr>Module_Name = ''auth'', Total_Commits = 2, Total_Bugs = 1, Total_PRs = 0,
        Weekly_Deployment_Frequency = Finite 1, Change_Failure_Rate = Finite 100,
        Mean_Time_to_Recovery = Finite 1, Lead_Time_for_Changes = Finite 0\<rparr>"
proof -
  define df where "df = data_frame case_variants"
  define e1 where "e1 = ev (Some 0) ''[Auth] fix bug''"
  define e2 where "e2 = ev (Some hour) ''[auth] release''"
  define m1 where "m1 = ''[Auth] fix bug''"
  define m2 where "m2 = ''[auth] release''"
  define c1 where "c1 = ''Auth''"
  define c2 where "c2 = ''auth''"
  define r1 where "r1 = \<lparr>Module_Name = ''Auth'', Total_Commits = 2, Total_Bugs = 1, Total_PRs = 0,
        Weekly_Deployment_Frequency = Finite 1, Change_Failure_Rate = Finite 100,
        Mean_Time_to_Recovery = Finite 1, Lead_Time_for_Changes = Finite 0\<rparr>"
  define r2 where "r2 = \<lparr>Module_Name = ''auth'', Total_Commits = 2, Total_Bugs = 1, Total_PRs = 0,
        Weekly_Deployment_Frequency = Finite 1, Change_Failure_Rate = Finite 100,
        Mean_Time_to_Recovery = Finite 1, Lead_Time_for_Changes = Finite 0\<rparr>"
  have 1: "(0, e1) \<in> set df" unfolding df_def e1_def by code_simp
  have 2: "message e1 = Some m1" unfolding e1_def m1_def by code_simp
  have 3: "str_extract m1 = Some c1" unfolding m1_def c1_def by code_simp
  have 4: "(1, e2) \<in> set df" unfolding df_def e2_def by code_simp
  have 5: "message e2 = Some m2" unfolding e2_def m2_def by code_simp
  have 6: "str_extract m2 = Some c2" unfolding m2_def c2_def by code_simp
  have 7: "c1 \<noteq> c2" unfolding c1_def c2_def by code_simp
  have 8: "map lower_char c1 = map lower_char c2" unfolding c1_def c2_def by code_simp
  have comps: "extract_components df = Inr [c1, c2]" unfolding df_def c1_def c2_def by code_simp
  have run: "calculate_dora_metrics df c1 = Inr r1" unfolding df_def c1_def r1_def by code_simp
  have upd: "r1\<lparr>Module_Name := c2\<rparr> = r2" unfolding r1_def r2_def c2_def by simp
  from C10_case_variants [OF 1 2 3 4 5 6 7 8]
  have same: "\<exists>rows. module_commits df c1 = Inr rows \<and> module_commits df c2 = Inr rows"
    and rep: "calculate_dora_metrics df c2 =
        map_sum id (\<lambda>rep. rep\<lparr>Module_Name := c2\<rparr>) (calculate_dora_metrics df c1)"
    by blast+
  from same have same': "module_commits df c1 = module_commits df c2" by auto
  from rep have "calculate_dora_metrics df c2 = Inr r2"
    by (simp add: run upd)
  with comps same' run
  have "extract_components df = Inr [c1, c2] \<and> module_commits df c1 = module_commits df c2
      \<and> calculate_dora_metrics df c1 = Inr r1 \<and> calculate_dora_metrics df c2 = Inr r2"
    by blast
  then show ?thesis
    unfolding df_def c1_def c2_def r1_def r2_def .
qed

lemma timestamp_sub_within:
  assumes "a - b \<le> int64_max" and "b - a \<le> int64_max"
  shows "timestamp_sub (Some a) (Some b) = Inr (Some (a - b))"
  using assms by (simp add: timestamp_sub_def int64_min_def int64_max_def)

lemma within_int64_sub:
  assumes "within_int64 evs" and "e \<in> set evs" and "e' \<in> set evs"
  shows "\<exists>delta. timestamp_sub (date e) (date e') = Inr delta"
proof (cases "date e")
  case None
  then show ?thesis by (simp add: timestamp_sub_def)
next
  case a: (Some a)
  show ?thesis
  proof (cases "date e'")
    case None
    with a show ?thesis by (simp add: timestamp_sub_def)
  next
    case b: (Some b)
    from a assms(2) have ina: "a \<in> set (List.map_filter date evs)"
      by (auto simp: set_map_filter_eq)
    from b assms(3) have inb: "b \<in> set (List.map_filter date evs)"
      by (auto simp: set_map_filter_eq)
    from assms(1) ina inb have "a - b \<le> int64_max" and "b - a \<le> int64_max"
      by (auto simp: within_int64_def list_all_iff)
    then show ?thesis using a b by (simp add: timestamp_sub_within)
  qed
qed

lemma recovery_loop_total:
  assumes "sorted_wrt (<) (map fst (pre @ suf))"
    and "\<And>r d. r \<in> snd ` set (pre @ suf) \<Longrightarrow> d \<in> snd ` set (pre @ suf) \<Longrightarrow>
           \<exists>delta. timestamp_sub (date d) (date r) = Inr delta"
  shows "\<exists>ts. recovery_loop (pre @ suf) (failure_indices suf) acc = Inr ts"
  using assms
proof (induction suf arbitrary: pre acc)
  case Nil
  then show ?case by (simp add: failure_indices_def recovery_loop.simps)
next
  case (Cons x suf)
  obtain i r where x: "x = (i, r)" by (cases x)
  let ?mc = "pre @ (i, r) # suf"
  from Cons.prems(1) have sorted: "sorted_wrt (<) (map fst ?mc)" by (simp add: x)
  then have sorted': "sorted_wrt (<) (map fst ((pre @ [(i, r)]) @ suf))" by simp
  have ok': "\<exists>delta. timestamp_sub (date d') (date r') = Inr delta"
    if "r' \<in> snd ` set ((pre @ [(i, r)]) @ suf)" "d' \<in> snd ` set ((pre @ [(i, r)]) @ suf)" for r' d'
    using that Cons.prems(2) [of r' d'] by (simp add: x)
  have IH: "\<exists>ts. recovery_loop ?mc (failure_indices suf) acc' = Inr ts" for acc'
    using Cons.IH [OF sorted' ok', of acc'] by simp
  show ?case
  proof (cases "is_failure r")
    case False
    then show ?thesis using IH [of acc] by (simp add: x failure_indices_Cons)
  next
    case True
    show ?thesis
    proof (cases "find is_deployment (map snd suf)")
      case None
      with True show ?thesis
        using IH [of acc] by (simp add: x failure_indices_Cons recovery_loop_step [OF sorted])
    next
      case (Some d)
      then have "d \<in> set (map snd suf)" by (auto simp: find_Some_iff)
      then have "d \<in> snd ` set ?mc" by auto
      moreover have "r \<in> snd ` set ?mc" by force
      ultimately obtain delta where delta: "timestamp_sub (date d) (date r) = Inr delta"
        using Cons.prems(2) [of r d] by (auto simp: x)
      show ?thesis
      proof (cases "hours delta")
        case NaN
        with True Some delta show ?thesis
          using IH [of acc] by (simp add: x failure_indices_Cons recovery_loop_step [OF sorted])
      next
        case (Finite h)
        with True Some delta show ?thesis
          using IH [of "if h > 0 then acc @ [h] else acc"]
          by (simp add: x failure_indices_Cons recovery_loop_step [OF sorted])
      qed
    qed
  qed
qed

lemma date_classify: "date (classify e) = date e"
  by (simp add: classify_def)

lemma recovery_times_total:
  assumes "within_int64 (filtered_events evs name)"
  shows "\<exists>ts. recovery_times (labelled_rows (data_frame evs) name) = Inr ts"
proof -
  let ?mc = "labelled_rows (data_frame evs) name"
  have ok: "\<exists>delta. timestamp_sub (date d) (date r) = Inr delta"
    if "r \<in> snd ` set ([] @ ?mc)" "d \<in> snd ` set ([] @ ?mc)" for r d
  proof -
    from that have "r \<in> set (map snd ?mc)" "d \<in> set (map snd ?mc)" by simp_all
    then have "r \<in> set (classified evs name)" "d \<in> set (classified evs name)"
      by (simp_all only: classified_rows)
    then obtain e e' where "e \<in> set (filtered_events evs name)" "r = classify e"
      "e' \<in> set (filtered_events evs name)" "d = classify e'"
      by (auto simp: classified_def)
    with within_int64_sub [OF assms, of e' e] show ?thesis by (simp add: date_classify)
  qed
  have "sorted_wrt (<) (map fst ([] @ ?mc))"
    using labelled_rows_data_frame_labels [of evs name] by simp
  from recovery_loop_total [OF this ok, of "[]"] show ?thesis
    by (simp add: recovery_times_def)
qed

text \<open>
  Claim C9, as the code has it. When the message column holds text (some message of the
  log is text, or the log is empty) and the timestamps of the filtered events lie within
  \<open>2\<^sup>6\<^sup>3 - 1\<close> nanoseconds (about 292 years) of each other, the computation returns a
  report, whatever the messages and whichever timestamps are missing; for a component with
  no matching event in such a log it returns the report with every number 0. When no
  message of a log with events is text, the computation raises \<^verbatim>\<open>AttributeError\<close>.
\<close>

theorem C9_returns_a_report:
  "(holds_text (data_frame evs) \<and> within_int64 (filtered_events evs name) \<longrightarrow>
      (\<exists>rep. calculate_dora_metrics (data_frame evs) name = Inr rep))
   \<and> (holds_text (data_frame evs) \<and> filtered_events evs name = [] \<longrightarrow>
      calculate_dora_metrics (data_frame evs) name = Inr (zero_report name))
   \<and> (\<not> holds_text (data_frame evs) \<longrightarrow>
      calculate_dora_metrics (data_frame evs) name = Inl AttributeError)"
proof -
  let ?mc = "labelled_rows (data_frame evs) name"
  have a: "\<exists>rep. calculate_dora_metrics (data_frame evs) name = Inr rep"
    if "holds_text (data_frame evs)" "within_int64 (filtered_events evs name)"
  proof -
    from recovery_times_total [OF that(2)] obtain ts where "recovery_times ?mc = Inr ts" by blast
    then have "mean_time_to_recovery ?mc = Inr (Finite (mean_of_times ts))"
      by (simp add: mean_time_to_recovery_def)
    from calculate_dora_metrics_Inr
      [OF that(1) this lead_time_for_changes_eq [OF labelled_rows_data_frame_labels]]
    show ?thesis by blast
  qed
  have b: "calculate_dora_metrics (data_frame evs) name = Inr (zero_report name)"
    if "holds_text (data_frame evs)" "filtered_events evs name = []"
  proof -
    from that(2) have "map snd ?mc = []" by (simp only: classified_rows classified_def list.map)
    then have "?mc = []" by simp
    with that(1) show ?thesis
      by (simp add: calculate_dora_metrics_def module_commits_eq mean_time_to_recovery_def
          recovery_times_def failure_indices_def recovery_loop.simps mean_of_times_def
          lead_time_for_changes_def deployment_count_def weekly_deployment_freq_def
          change_failure_rate_def bug_count_def pr_count_def zero_report_def)
  qed
  have c: "calculate_dora_metrics (data_frame evs) name = Inl AttributeError"
    if "\<not> holds_text (data_frame evs)"
    using that by (rule calculate_dora_metrics_raises)
  from a b c show ?thesis by blast
qed

theorem C9_returns_a_report_witness:
  "holds_text (data_frame bug_then_release)
   \<and> within_int64 (filtered_events bug_then_release ''X'')
   \<and> (\<exists>rep. calculate_dora_metrics (data_frame bug_then_release) ''X'' = Inr rep)
   \<and> filtered_events bug_then_release ''Y'' = []
   \<and> calculate_dora_metrics (data_frame bug_then_release) ''Y'' = Inr (zero_report ''Y'')
   \<and> \<not> holds_text (data_frame no_text)
   \<and> calculate_dora_metrics (data_frame no_text) ''X'' = Inl AttributeError"
proof -
  have 0: "holds_text (data_frame bug_then_release)" by code_simp
  have 1: "within_int64 (filtered_events bug_then_release ''X'')" by code_simp
  have 2: "filtered_events bug_then_release ''Y'' = []" by code_simp
  have 5: "\<not> holds_text (data_frame no_text)" by code_simp
  from 0 1 have 01: "holds_text (data_frame bug_then_release)
      \<and> within_int64 (filtered_events bug_then_release ''X'')" by (rule conjI)
  from 0 2 have 02: "holds_text (data_frame bug_then_release)
      \<and> filtered_events bug_then_release ''Y'' = []" by (rule conjI)
  from C9_returns_a_report [of bug_then_release "''X''"] 01
  have 3: "\<exists>rep. calculate_dora_metrics (data_frame bug_then_release) ''X'' = Inr rep"
    by (rule mp [OF conjunct1])
  from C9_returns_a_report [of bug_then_release "''Y''"] 02
  have 4: "calculate_dora_metrics (data_frame bug_then_release) ''Y'' = Inr (zero_report ''Y'')"
    by (rule mp [OF conjunct1 [OF conjunct2]])
  from C9_returns_a_report [of no_text "''X''"] 5
  have 6: "calculate_dora_metrics (data_frame no_text) ''X'' = Inl AttributeError"
    by (rule mp [OF conjunct2 [OF conjunct2]])
  from 0 1 3 2 4 5 6 show ?thesis by (intro conjI)
qed

text \<open>
  Claim C9, as the specification has it, fails twice. A bug dated 1688 and a release dated
  2101 are 413 years apart, their difference does not fit the 64-bit Timedelta, and the
  subtraction in the recovery loop raises \<^verbatim>\<open>OutOfBoundsDatetime\<close>. And a log whose one
  message is missing has a message column without strings, on which the accessor of the
  first statement raises \<^verbatim>\<open>AttributeError\<close>.
\<close>

theorem C9_raises_counterexample:
  "calculate_dora_metrics (data_frame far_apart) ''X'' = Inl OutOfBoundsDatetime
   \<and> calculate_dora_metrics (data_frame no_text) ''X'' = Inl AttributeError"
proof -
  have "calculate_dora_metrics (data_frame far_apart) ''X'' = Inl OutOfBoundsDatetime"
    by code_simp
  moreover have "calculate_dora_metrics (data_frame no_text) ''X'' = Inl AttributeError"
    by code_simp
  ultimately show ?thesis by (rule conjI)
qed

lemma filtered_events_without_dates:
  "filtered_events (without_dates evs) name = without_dates (filtered_events evs name)"
  by (simp add: filtered_events_def without_dates_def filter_map comp_def)

lemma classify_without_date: "classify (e\<lparr>date := None\<rparr>) = (classify e)\<lparr>date := None\<rparr>"
  by (simp add: classify_def)

lemma classified_without_dates:
  "classified (without_dates evs) name = map (\<lambda>r. r\<lparr>date := None\<rparr>) (classified evs name)"
proof -
  have "classified (without_dates evs) name = map classify (without_dates (filtered_events evs name))"
    by (simp only: classified_def filtered_events_without_dates)
  also have "\<dots> = map (\<lambda>r. r\<lparr>date := None\<rparr>) (classified evs name)"
    by (simp add: without_dates_def classified_def classify_without_date comp_def)
  finally show ?thesis .
qed

lemma label_counts_without_dates:
  "label_counts (classified (without_dates evs) name) = label_counts (classified evs name)"
  by (simp add: label_counts_def classified_without_dates filter_map comp_def)

lemma groupby_size_dated:
  "groupby_size (map (\<lambda>(i, r). to_period_W (date r)) (filter (\<lambda>(i, r). date r \<noteq> None) xs))
     = groupby_size (map (\<lambda>(i, r). to_period_W (date r)) xs)"
proof (induction xs)
  case Nil
  then show ?case by simp
next
  case (Cons p ps)
  then show ?case
    by (cases "date (snd p)") (simp_all add: case_prod_unfold to_period_W_def)
qed

lemma week_sizes_dated:
  "week_sizes mc = week_sizes (filter (\<lambda>(i, r). date r \<noteq> None) mc)"
proof -
  have "filter (\<lambda>(i, r). is_deployment r) (filter (\<lambda>(i, r). date r \<noteq> None) mc)
      = filter (\<lambda>(i, r). date r \<noteq> None) (filter (\<lambda>(i, r). is_deployment r) mc)"
    by (simp add: case_prod_unfold conj_commute)
  then show ?thesis
    by (simp only: week_sizes_def groupby_size_dated)
qed

lemma positive_hours_origin:
  assumes "h \<in> set (positive_hours d f)"
  shows "\<exists>a b. d = Some a \<and> f = Some b \<and> 0 < a - b \<and> h = of_int (a - b) / ns_per_hour"
  using assms
  by (cases d; cases f) (auto simp: positive_hours_def split: if_splits)

lemma position_samples_origin:
  assumes "h \<in> set (position_samples rows)"
  shows "\<exists>i j a b. i < j \<and> j < length rows
      \<and> is_failure (rows ! i) \<and> is_deployment (rows ! j)
      \<and> (\<forall>k. i < k \<and> k < j \<longrightarrow> \<not> is_deployment (rows ! k))
      \<and> date (rows ! i) = Some b \<and> date (rows ! j) = Some a
      \<and> 0 < a - b \<and> h = of_int (a - b) / ns_per_hour"
proof -
  from assms obtain i where i: "i < length rows" "is_failure (rows ! i)"
    and h: "h \<in> set (recovery_sample rows i)"
    by (auto simp: position_samples_def)
  from h obtain d where d: "find is_deployment (drop (Suc i) rows) = Some d"
    and hd: "h \<in> set (positive_hours (date d) (date (rows ! i)))"
    by (cases "find is_deployment (drop (Suc i) rows)") (auto simp: recovery_sample_def)
  from d obtain n where n: "n < length (drop (Suc i) rows)"
    "is_deployment (drop (Suc i) rows ! n)" "d = drop (Suc i) rows ! n"
    "\<forall>m<n. \<not> is_deployment (drop (Suc i) rows ! m)"
    by (auto simp: find_Some_iff)
  let ?j = "Suc i + n"
  from n(1) have j: "?j < length rows" by simp
  then have nth: "drop (Suc i) rows ! m = rows ! (Suc i + m)" if "m \<le> n" for m
    using that by simp
  have first: "\<not> is_deployment (rows ! k)" if "i < k" "k < ?j" for k
  proof -
    from that have "k - Suc i < n" by simp
    with n(4) have "\<not> is_deployment (drop (Suc i) rows ! (k - Suc i))" by blast
    moreover from that have "Suc i + (k - Suc i) = k" by simp
    ultimately show ?thesis using nth [of "k - Suc i"] \<open>k - Suc i < n\<close> by simp
  qed
  from n(2,3) have dj: "d = rows ! ?j" "is_deployment (rows ! ?j)"
    using nth [of n] by simp_all
  from positive_hours_origin [OF hd] obtain a b
    where ab: "date d = Some a" "date (rows ! i) = Some b" "0 < a - b"
      "h = of_int (a - b) / ns_per_hour"
    by blast
  have "i < ?j" by simp
  with j i(2) dj first ab show ?thesis by blast
qed

lemma lead_terms_dated:
  fixes mc :: "row frame"
  assumes "sorted_wrt (<) (map fst mc)"
  shows "\<exists>l l'. lead_times mc = Inr l
      \<and> lead_times (filter (\<lambda>(i, r). date r \<noteq> None) mc) = Inr l'
      \<and> dropna l = dropna l'"
proof -
  let ?dated = "filter (\<lambda>(i, r). date r \<noteq> None) mc"
  have sorted': "sorted_wrt (<) (map fst ?dated)" using assms by (rule filter_labels)
  have "filter (\<lambda>(i, r). is_deployment r \<and> date r \<noteq> None) ?dated
      = filter (\<lambda>(i, r). is_deployment r \<and> date r \<noteq> None) mc"
    by (simp add: case_prod_unfold conj_commute cong: conj_cong)
  then have "dropna (map (\<lambda>(i, r). hours (own_difference r)) mc)
      = dropna (map (\<lambda>(i, r). hours (own_difference r)) ?dated)"
    by (simp only: dropna_own)
  with lead_times_own [OF assms] lead_times_own [OF sorted'] show ?thesis by blast
qed

text \<open>
  Claim C8, as the code has it. The five counts do not look at the timestamps, so an event
  without one is counted like any other. Such an event makes no week entry, no recovery
  sample comes from a failure or from a deployment without a timestamp, and it adds no term
  to the lead-time mean. It is not taken out of the sequence, though: every sample pairs a
  failure with the first deployment after it in input order, dated or not.
\<close>

theorem C8_missing_timestamps:
  assumes "calculate_dora_metrics (data_frame evs) name = Inr rep"
  shows "\<exists>mc. module_commits (data_frame evs) name = Inr mc
    \<and> (Total_Commits rep, Total_Bugs rep, Total_PRs rep, deployment_count mc, failure_count mc)
        = label_counts (classified evs name)
    \<and> label_counts (classified (without_dates evs) name) = label_counts (classified evs name)
    \<and> week_sizes mc = week_sizes (filter (\<lambda>(i, r). date r \<noteq> None) mc)
    \<and> (\<exists>ts. recovery_times mc = Inr ts
          \<and> (\<forall>h. h \<in> set ts \<longrightarrow>
               (\<exists>i j a b. i < j \<and> j < length (classified evs name)
                  \<and> is_failure (classified evs name ! i) \<and> is_deployment (classified evs name ! j)
                  \<and> (\<forall>k. i < k \<and> k < j \<longrightarrow> \<not> is_deployment (classified evs name ! k))
                  \<and> date (classified evs name ! i) = Some b
                  \<and> date (classified evs name ! j) = Some a
                  \<and> 0 < a - b \<and> h = of_int (a - b) / ns_per_hour)))
    \<and> (\<exists>l l'. lead_times mc = Inr l
          \<and> lead_times (filter (\<lambda>(i, r). date r \<noteq> None) mc) = Inr l'
          \<and> dropna l = dropna l')"
proof -
  let ?mc = "labelled_rows (data_frame evs) name"
  let ?rows = "classified evs name"
  note mc = calculate_dora_metrics_fields(10) [OF assms]
  have counts: "(Total_Commits rep, Total_Bugs rep, Total_PRs rep, deployment_count ?mc,
      failure_count ?mc) = label_counts ?rows"
    using calculate_dora_metrics_fields(2,3,4) [OF assms]
    by (simp add: label_counts_def counts_rows)
  have samples: "\<exists>ts. recovery_times ?mc = Inr ts
          \<and> (\<forall>h. h \<in> set ts \<longrightarrow>
               (\<exists>i j a b. i < j \<and> j < length ?rows
                  \<and> is_failure (?rows ! i) \<and> is_deployment (?rows ! j)
                  \<and> (\<forall>k. i < k \<and> k < j \<longrightarrow> \<not> is_deployment (?rows ! k))
                  \<and> date (?rows ! i) = Some b \<and> date (?rows ! j) = Some a
                  \<and> 0 < a - b \<and> h = of_int (a - b) / ns_per_hour))"
    using mean_time_to_recovery_position(1) [OF assms] position_samples_origin [of _ ?rows]
    by blast
  show ?thesis
    by (rule exI [of _ ?mc], intro conjI)
      (fact mc counts label_counts_without_dates week_sizes_dated samples
        lead_terms_dated [OF labelled_rows_data_frame_labels])+
qed

theorem C8_missing_timestamps_witness:
  "calculate_dora_metrics (data_frame undated_release_between) ''X'' =
      Inr \<lparr>Module_Name = ''X'', Total_Commits = 3, Total_Bugs = 1, Total_PRs = 0,
        Weekly_Deployment_Frequency = Finite 1, Change_Failure_Rate = Finite 50,
        Mean_Time_to_Recovery = Finite 0, Lead_Time_for_Changes = Finite 0\<rparr>
   \<and> label_counts (classified undated_release_between ''X'') = (3, 1, 0, 2, 1)
   \<and> label_counts (classified (without_dates undated_release_between) ''X'') = (3, 1, 0, 2, 1)"
proof -
  define rep where "rep = \<lparr>Module_Name = ''X'', Total_Commits = 3, Total_Bugs = 1, Total_PRs = 0,
        Weekly_Deployment_Frequency = Finite 1, Change_Failure_Rate = Finite 50,
        Mean_Time_to_Recovery = Finite 0, Lead_Time_for_Changes = Finite 0\<rparr>"
  have run: "calculate_dora_metrics (data_frame undated_release_between) ''X'' = Inr rep"
    unfolding rep_def by code_simp
  have counts: "label_counts (classified undated_release_between ''X'') = (3, 1, 0, 2, 1)"
    by code_simp
  from C8_missing_timestamps [OF run]
  have "label_counts (classified (without_dates undated_release_between) ''X'')
      = label_counts (classified undated_release_between ''X'')"
    by (elim exE conjE)
  with counts have "label_counts (classified (without_dates undated_release_between) ''X'') = (3, 1, 0, 2, 1)"
    by simp
  with run counts show ?thesis unfolding rep_def by (intro conjI)
qed

text \<open>
  Claim C8, as the specification has it, fails for the mean time to recovery: the bug is
  followed by a release without a date and, five hours after the bug, by a dated release.
  The undated release is the first deployment after the bug, so the engine records no sample
  and reports 0; with the undated event taken out of the log it reports 5.
\<close>

theorem C8_undated_deployment_counterexample:
  "map_sum id Mean_Time_to_Recovery
       (calculate_dora_metrics (data_frame undated_release_between) ''X'') = Inr (Finite 0)
   \<and> map_sum id Mean_Time_to_Recovery
       (calculate_dora_metrics (data_frame (with_dates undated_release_between)) ''X'') = Inr (Finite 5)"
proof -
  have "map_sum id Mean_Time_to_Recovery
       (calculate_dora_metrics (data_frame undated_release_between) ''X'') = Inr (Finite 0)"
    by code_simp
  moreover have "map_sum id Mean_Time_to_Recovery
       (calculate_dora_metrics (data_frame (with_dates undated_release_between)) ''X'') = Inr (Finite 5)"
    by code_simp
  ultimately show ?thesis by blast
qed

end
